theory Spec2Isabelle
  imports Complex_Main "HOL-Library.AList" "HOL-Library.Sublist"
begin

section \<open>Python values and the dynamic operations the handler applies to them\<close>

text \<open>
  Every payload the handler touches is the result of \<^verbatim>\<open>response.json()\<close>: \<^verbatim>\<open>None\<close>, a
  boolean, a number, a string, a list or a dictionary with string keys. Numbers are
  restricted to Python's unbounded integers; a dictionary is the list of its items in
  insertion order (its keys are distinct).
\<close>

datatype pyval =
    PNone
  | PBool bool
  | PInt int
  | PStr string
  | PList "pyval list"
  | PDict "(string \<times> pyval) list"

text \<open>
  Exceptions are values. All classes below derive from \<^verbatim>\<open>Exception\<close>; \<^verbatim>\<open>NebuiaApiError\<close> is a
  subclass of \<^verbatim>\<open>NebuiaError\<close> (nebuia_client.py, lines 60-72). \<^verbatim>\<open>OSError\<close> stands for the class
  and its subclasses (\<^verbatim>\<open>PermissionError\<close> and the like). The string is \<^verbatim>\<open>str(e)\<close>.
\<close>

datatype exn_class =
    TimeoutError
  | NebuiaError
  | NebuiaApiError
  | ValueError
  | TypeError
  | AttributeError
  | KeyError
  | OSError
  | OverflowError
  | OtherException

datatype exn = Exn exn_class string

fun exn_message :: "exn \<Rightarrow> string" where
  "exn_message (Exn c m) = m"

fun exn_kind :: "exn \<Rightarrow> exn_class" where
  "exn_kind (Exn c m) = c"

text \<open>\<^verbatim>\<open>except NebuiaError\<close> also catches the subclass.\<close>

definition is_NebuiaError :: "exn \<Rightarrow> bool" where
  "is_NebuiaError e = (exn_kind e = NebuiaError \<or> exn_kind e = NebuiaApiError)"

definition is_TimeoutError :: "exn \<Rightarrow> bool" where
  "is_TimeoutError e = (exn_kind e = TimeoutError)"

fun type_name :: "pyval \<Rightarrow> string" where
  "type_name PNone = ''NoneType''"
| "type_name (PBool b) = ''bool''"
| "type_name (PInt n) = ''int''"
| "type_name (PStr s) = ''str''"
| "type_name (PList xs) = ''list''"
| "type_name (PDict kvs) = ''dict''"

text \<open>A name between single quotes, as the interpreter's messages print it.\<close>

definition quoted :: "string \<Rightarrow> string" where
  "quoted s = CHR 0x27 # s @ [CHR 0x27]"

text \<open>Truth value testing: \<^verbatim>\<open>if v\<close>, \<^verbatim>\<open>not v\<close>.\<close>

fun truthy :: "pyval \<Rightarrow> bool" where
  "truthy PNone = False"
| "truthy (PBool b) = b"
| "truthy (PInt n) = (n \<noteq> 0)"
| "truthy (PStr s) = (s \<noteq> [])"
| "truthy (PList xs) = (xs \<noteq> [])"
| "truthy (PDict kvs) = (kvs \<noteq> [])"

text \<open>\<^verbatim>\<open>v.get(k, d)\<close>: only a dictionary has the method.\<close>

fun py_get :: "pyval \<Rightarrow> string \<Rightarrow> pyval \<Rightarrow> exn + pyval" where
  "py_get (PDict kvs) k d = Inr (case map_of kvs k of Some v \<Rightarrow> v | None \<Rightarrow> d)"
| "py_get v k d = Inl (Exn AttributeError (quoted (type_name v) @ '' object has no attribute '' @ quoted ''get''))"

text \<open>
  \<^verbatim>\<open>k in v\<close> for a string \<open>k\<close>: a key test on a dictionary, an element test on a list, a
  substring test on a string, a \<^verbatim>\<open>TypeError\<close> on anything else.
\<close>

fun py_contains :: "string \<Rightarrow> pyval \<Rightarrow> exn + bool" where
  "py_contains k (PDict kvs) = Inr (k \<in> fst ` set kvs)"
| "py_contains k (PList xs) = Inr (PStr k \<in> set xs)"
| "py_contains k (PStr s) = Inr (sublist k s)"
| "py_contains k v = Inl (Exn TypeError (''argument of type '' @ quoted (type_name v) @ '' is not iterable''))"

text \<open>
  \<^verbatim>\<open>for x in v\<close>: the elements of a list, the keys of a dictionary, the characters of a
  string; nothing else is iterable.
\<close>

fun py_iter :: "pyval \<Rightarrow> exn + pyval list" where
  "py_iter (PList xs) = Inr xs"
| "py_iter (PDict kvs) = Inr (map (\<lambda>kv. PStr (fst kv)) kvs)"
| "py_iter (PStr s) = Inr (map (\<lambda>c. PStr [c]) s)"
| "py_iter v = Inl (Exn TypeError (quoted (type_name v) @ '' object is not iterable''))"

text \<open>\<^verbatim>\<open>v[k]\<close>, \<^verbatim>\<open>v[k] = x\<close> and \<^verbatim>\<open>del v[k]\<close> for a string \<open>k\<close>.\<close>

fun py_getitem :: "pyval \<Rightarrow> string \<Rightarrow> exn + pyval" where
  "py_getitem (PDict kvs) k =
     (case map_of kvs k of Some v \<Rightarrow> Inr v | None \<Rightarrow> Inl (Exn KeyError (quoted k)))"
| "py_getitem (PList xs) k = Inl (Exn TypeError ''list indices must be integers or slices, not str'')"
| "py_getitem (PStr s) k = Inl (Exn TypeError ''string indices must be integers'')"
| "py_getitem v k = Inl (Exn TypeError (quoted (type_name v) @ '' object is not subscriptable''))"

fun py_setitem :: "pyval \<Rightarrow> string \<Rightarrow> pyval \<Rightarrow> exn + pyval" where
  "py_setitem (PDict kvs) k x = Inr (PDict (AList.update k x kvs))"
| "py_setitem (PList xs) k x = Inl (Exn TypeError ''list indices must be integers or slices, not str'')"
| "py_setitem v k x = Inl (Exn TypeError (quoted (type_name v) @ '' object does not support item assignment''))"

fun py_delitem :: "pyval \<Rightarrow> string \<Rightarrow> exn + pyval" where
  "py_delitem (PDict kvs) k =
     (if k \<in> fst ` set kvs then Inr (PDict (AList.delete k kvs))
      else Inl (Exn KeyError (quoted k)))"
| "py_delitem (PList xs) k = Inl (Exn TypeError ''list indices must be integers or slices, not str'')"
| "py_delitem v k = Inl (Exn TypeError (quoted (type_name v) @ '' object does not support item deletion''))"

text \<open>\<^verbatim>\<open>v.copy()\<close>: dictionaries and lists have the method; the copy has the same items.\<close>

fun py_copy :: "pyval \<Rightarrow> exn + pyval" where
  "py_copy (PDict kvs) = Inr (PDict kvs)"
| "py_copy (PList xs) = Inr (PList xs)"
| "py_copy v = Inl (Exn AttributeError (quoted (type_name v) @ '' object has no attribute '' @ quoted ''copy''))"

section \<open>Paths (pathlib on a POSIX system)\<close>

text \<open>
  \<^verbatim>\<open>Path(s)\<close> keeps the root (\<^verbatim>\<open>/\<close>, or \<^verbatim>\<open>//\<close> for exactly two leading slashes) and the
  components of \<open>s\<close> that are neither empty nor \<^verbatim>\<open>.\<close>; \<^verbatim>\<open>str(path)\<close> joins them again, and
  is \<^verbatim>\<open>.\<close> for the empty path.
\<close>

record path =
  path_root :: string
  path_parts :: "string list"

fun split_on :: "char \<Rightarrow> string \<Rightarrow> string list" where
  "split_on c [] = [[]]"
| "split_on c (x # xs) =
     (if x = c then [] # split_on c xs
      else (case split_on c xs of [] \<Rightarrow> [[x]] | p # ps \<Rightarrow> (x # p) # ps))"

fun join_with :: "char \<Rightarrow> string list \<Rightarrow> string" where
  "join_with c [] = []"
| "join_with c [p] = p"
| "join_with c (p # q # ps) = p @ c # join_with c (q # ps)"

definition splitroot :: "string \<Rightarrow> string \<times> string" where
  "splitroot part =
     (let stripped_part = dropWhile (\<lambda>c. c = CHR ''/'') part;
          n = length part - length stripped_part
      in if n = 0 then ([], part)
         else if n = 2 then (''//'', stripped_part)
         else (''/'', stripped_part))"

definition Path :: "string \<Rightarrow> path" where
  "Path s =
     (let (root, rel) = splitroot s
      in \<lparr>path_root = root,
          path_parts = filter (\<lambda>x. x \<noteq> [] \<and> x \<noteq> ''.'') (split_on CHR ''/'' rel)\<rparr>)"

definition path_str :: "path \<Rightarrow> string" where
  "path_str p =
     (let s = path_root p @ join_with CHR ''/'' (path_parts p)
      in if s = [] then ''.'' else s)"

definition path_name :: "path \<Rightarrow> string" where
  "path_name p = (if path_parts p = [] then [] else last (path_parts p))"

text \<open>
  \<^verbatim>\<open>path.suffix\<close>: the name from its last dot on, when that dot is neither the first nor
  the last character of the name.
\<close>

fun rfind :: "char \<Rightarrow> string \<Rightarrow> nat option" where
  "rfind c [] = None"
| "rfind c (x # xs) =
     (case rfind c xs of Some i \<Rightarrow> Some (Suc i) | None \<Rightarrow> (if x = c then Some 0 else None))"

definition path_suffix :: "path \<Rightarrow> string" where
  "path_suffix p =
     (let name = path_name p
      in case rfind CHR ''.'' name of
           None \<Rightarrow> []
         | Some i \<Rightarrow> if 0 < i \<and> i < length name - 1 then drop i name else [])"

text \<open>
  \<^verbatim>\<open>str.lower\<close>, on the ASCII letters. No character outside ASCII lowers to one of
  \<^verbatim>\<open>.\<close>, \<^verbatim>\<open>p\<close>, \<^verbatim>\<open>d\<close>, \<^verbatim>\<open>f\<close>, so the comparison with \<^verbatim>\<open>.pdf\<close> is exact.
\<close>

definition lower_char :: "char \<Rightarrow> char" where
  "lower_char c =
     (let n = (of_char c :: nat)
      in if 65 \<le> n \<and> n \<le> 90 then char_of (n + 32) else c)"

definition str_lower :: "string \<Rightarrow> string" where
  "str_lower s = map lower_char s"

section \<open>validate_documents (exec.py, lines 108-134)\<close>

text \<open>
  \<open>file_exists\<close> is the state of local storage, asked through \<^verbatim>\<open>path.exists()\<close>. The answer is
  \<^verbatim>\<open>True\<close> or \<^verbatim>\<open>False\<close>, or an exception: pathlib turns the errors "no such file", "not a
  directory", "bad file descriptor" and "too many links" into \<^verbatim>\<open>False\<close> and lets every other
  \<^verbatim>\<open>OSError\<close> of the file system through (a name that is too long, a directory that may not
  be searched). The loop has no \<^verbatim>\<open>try\<close>, so such an exception ends it. The two warnings and
  the info line are log output and are left out.
\<close>

fun validate_loop ::
  "(string \<Rightarrow> exn + bool) \<Rightarrow> (string \<times> string) list \<Rightarrow> (string \<times> string) list
     \<Rightarrow> exn + (string \<times> string) list"
where
  "validate_loop file_exists [] valid_documents = Inr valid_documents"
| "validate_loop file_exists ((doc_type, file_path) # rest) valid_documents =
     (let path = Path file_path in
      case file_exists (path_str path) of
        Inl e \<Rightarrow> Inl e
      | Inr found \<Rightarrow>
          if \<not> found then validate_loop file_exists rest valid_documents
          else if str_lower (path_suffix path) \<noteq> ''.pdf'' then validate_loop file_exists rest valid_documents
          else validate_loop file_exists rest (AList.update doc_type (path_str path) valid_documents))"

definition validate_documents ::
  "(string \<Rightarrow> exn + bool) \<Rightarrow> (string \<times> string) list \<Rightarrow> exn + (string \<times> string) list"
where
  "validate_documents file_exists documents = validate_loop file_exists documents []"

section \<open>The remote service, the clock and the trace of effects\<close>

text \<open>
  The client's endpoint methods (nebuia_client.py) are HTTP requests; what the service
  answers is not decided by the handler. The environment fixes, for one run, the answer to
  the \<open>k\<close>-th effect of the run (a JSON payload, or the exception the endpoint raises) and
  the time that effect takes, so any sequence of answers can be chosen. \<open>py_str\<close> is the
  text an f-string prints for a value. The run's state is the wall clock (in seconds) and
  the trace of the effects so far, each call with its answer.
\<close>

datatype call =
    CreateRecord string
  | UploadDocument pyval string string
  | GetRecordDetails pyval
  | GetDocumentStatus pyval
  | VerifyDocumentType pyval pyval
  | CreateProcessingJob pyval

datatype event = Called call "exn + pyval" | Slept int

record env =
  file_exists :: "string \<Rightarrow> exn + bool"
  respond :: "nat \<Rightarrow> call \<Rightarrow> exn + pyval"
  delay :: "nat \<Rightarrow> real"
  sleep_error :: "int \<Rightarrow> exn option"
  py_str :: "pyval \<Rightarrow> string"

record world =
  clock :: real
  trace :: "event list"

definition perform :: "env \<Rightarrow> call \<Rightarrow> world \<Rightarrow> (exn + pyval) \<times> world" where
  "perform env c w =
     (let k = length (trace w); r = respond env k c
      in (r, \<lparr>clock = clock w + delay env k, trace = trace w @ [Called c r]\<rparr>))"

text \<open>
  \<^verbatim>\<open>time.sleep(secs)\<close> raises before any waiting, and which exception depends on the length
  only: the length is first converted to the platform's time type, then tested for its
  sign, then handed to the system. \<open>sleep_error\<close> is what the conversion and the system raise
  on the platform of the run (CPython 3.11 on Linux: an \<^verbatim>\<open>OverflowError\<close> from 9223372037
  seconds on, an \<^verbatim>\<open>OSError\<close> for 9223372036); a negative length that passes the conversion
  raises a \<^verbatim>\<open>ValueError\<close>.
\<close>

definition sleep_exn :: "env \<Rightarrow> int \<Rightarrow> exn option" where
  "sleep_exn env secs =
     (case sleep_error env secs of
        Some e \<Rightarrow> Some e
      | None \<Rightarrow> if secs < 0 then Some (Exn ValueError ''sleep length must be non-negative'') else None)"

definition sleep :: "env \<Rightarrow> int \<Rightarrow> world \<Rightarrow> (exn + unit) \<times> world" where
  "sleep env secs w =
     (case sleep_exn env secs of
        Some e \<Rightarrow> (Inl e, w)
      | None \<Rightarrow>
          (Inr (),
           \<lparr>clock = clock w + real_of_int secs + delay env (length (trace w)),
            trace = trace w @ [Slept secs]\<rparr>))"

section \<open>status_callback (exec.py, lines 70-106)\<close>

text \<open>
  The callback only prints, but it raises when the status is not a string: the lookup in
  the emoji table needs a hashable key and \<^verbatim>\<open>record_status.upper()\<close> a string.
\<close>

fun hashable :: "pyval \<Rightarrow> bool" where
  "hashable (PList xs) = False"
| "hashable (PDict kvs) = False"
| "hashable v = True"

definition status_callback :: "pyval \<Rightarrow> real \<Rightarrow> pyval \<Rightarrow> exn + unit" where
  "status_callback status elapsed_time record_details =
     (case py_get record_details ''is_processing'' (PBool False) of
        Inl e \<Rightarrow> Inl e
      | Inr is_processing \<Rightarrow>
          if \<not> hashable status then Inl (Exn TypeError (''unhashable type: '' @ quoted (type_name status)))
          else (case status of
                  PStr record_status \<Rightarrow>
                    (case py_get record_details ''current_document_id'' PNone of
                       Inl e \<Rightarrow> Inl e
                     | Inr current_document \<Rightarrow> Inr ())
                | _ \<Rightarrow> Inl (Exn AttributeError
                           (quoted (type_name status) @ '' object has no attribute '' @ quoted ''upper''))))"

section \<open>wait_for_record_completion (nebuia_client.py, lines 778-827)\<close>

text \<open>
  The loop can run forever (a zero interval on a clock that does not advance), so it is a
  partial function: \<open>None\<close> is a run that never returns.
\<close>

partial_function (option) completion_loop ::
  "env \<Rightarrow> pyval \<Rightarrow> int \<Rightarrow> int \<Rightarrow> (pyval \<Rightarrow> real \<Rightarrow> pyval \<Rightarrow> exn + unit) option \<Rightarrow> real \<Rightarrow> world
     \<Rightarrow> ((exn + pyval) \<times> world) option"
where
  "completion_loop env record_id timeout polling_interval callback start_time w =
     (if clock w - start_time < real_of_int timeout then
        (case perform env (GetRecordDetails record_id) w of
           (Inl e, w1) \<Rightarrow> Some (Inl e, w1)
         | (Inr record_details, w1) \<Rightarrow>
             (case py_get record_details ''status'' (PStr ''unknown'') of
                Inl e \<Rightarrow> Some (Inl e, w1)
              | Inr current_status \<Rightarrow>
                  (case (case callback of
                           Some cb \<Rightarrow> cb current_status (clock w1 - start_time) record_details
                         | None \<Rightarrow> Inr ()) of
                     Inl e \<Rightarrow> Some (Inl e, w1)
                   | Inr u \<Rightarrow>
                       if current_status = PStr ''complete'' then Some (Inr record_details, w1)
                       else if current_status = PStr ''error'' then
                         (case py_get record_details ''error_message'' (PStr ''Unknown error'') of
                            Inl e \<Rightarrow> Some (Inl e, w1)
                          | Inr error_message \<Rightarrow>
                              Some (Inl (Exn NebuiaError
                                (''Record processing failed: '' @ py_str env error_message)), w1))
                       else (case sleep env polling_interval w1 of
                               (Inl e, w2) \<Rightarrow> Some (Inl e, w2)
                             | (Inr u', w2) \<Rightarrow>
                                 completion_loop env record_id timeout polling_interval callback start_time w2))))
      else Some (Inl (Exn TimeoutError
             (''Timeout exceeded for record '' @ py_str env record_id @ '' after '' @
              py_str env (PInt timeout) @ '' seconds'')), w))"

definition wait_for_record_completion ::
  "env \<Rightarrow> pyval \<Rightarrow> int \<Rightarrow> int \<Rightarrow> (pyval \<Rightarrow> real \<Rightarrow> pyval \<Rightarrow> exn + unit) option \<Rightarrow> world
     \<Rightarrow> ((exn + pyval) \<times> world) option"
where
  "wait_for_record_completion env record_id timeout polling_interval callback w =
     completion_loop env record_id timeout polling_interval callback (clock w) w"

section \<open>verify_document_type (exec.py, lines 136-191)\<close>

definition display_verification_points :: "pyval \<Rightarrow> exn + unit" where
  "display_verification_points result =
     (case py_contains ''points'' result of
        Inl e \<Rightarrow> Inl e
      | Inr has_points \<Rightarrow>
          if \<not> has_points then Inr ()
          else (case py_getitem result ''points'' of
                  Inl e \<Rightarrow> Inl e
                | Inr points \<Rightarrow>
                    if \<not> truthy points then Inr ()
                    else (case py_get result ''status'' (PBool False) of
                            Inl e \<Rightarrow> Inl e
                          | Inr status \<Rightarrow>
                              (case py_get result ''type_document_found'' (PStr ''desconocido'') of
                                 Inl e \<Rightarrow> Inl e
                               | Inr doc_type \<Rightarrow>
                                   (case py_iter points of
                                      Inl e \<Rightarrow> Inl e
                                    | Inr ps \<Rightarrow> Inr ())))))"

text \<open>The dictionary an \<^verbatim>\<open>except\<close> branch records for a verification that raised.\<close>

definition verification_error :: "exn \<Rightarrow> pyval" where
  "verification_error e = PDict [(''status'', PBool False), (''error'', PStr (exn_message e))]"

text \<open>\<^verbatim>\<open>result.get("status") is True\<close> holds for the JSON value \<^verbatim>\<open>true\<close> only.\<close>

definition verify_document_type ::
  "env \<Rightarrow> pyval \<Rightarrow> pyval \<Rightarrow> world \<Rightarrow> (exn + bool \<times> pyval) \<times> world"
where
  "verify_document_type env record_id document_type_id w =
     (case perform env (VerifyDocumentType record_id document_type_id) w of
        (Inl e, w1) \<Rightarrow> (Inr (False, verification_error e), w1)
      | (Inr result, w1) \<Rightarrow>
          (case py_get result ''status'' PNone of
             Inl e \<Rightarrow> (Inr (False, verification_error e), w1)
           | Inr status \<Rightarrow>
               (case display_verification_points result of
                  Inl e \<Rightarrow> (Inr (False, verification_error e), w1)
                | Inr u \<Rightarrow> (Inr (status = PBool True, result), w1))))"

section \<open>_create_and_upload (exec.py, lines 276-324)\<close>

text \<open>The inner loop over the record's documents, left by \<^verbatim>\<open>break\<close> at the first match.\<close>

fun find_document_id :: "pyval list \<Rightarrow> string \<Rightarrow> exn + pyval option" where
  "find_document_id [] doc_type = Inr None"
| "find_document_id (document # rest) doc_type =
     (case py_get document ''document_type'' PNone of
        Inl e \<Rightarrow> Inl e
      | Inr t \<Rightarrow>
          if t = PStr doc_type then
            (case py_get document ''document_id'' PNone of
               Inl e \<Rightarrow> Inl e
             | Inr document_id \<Rightarrow> Inr (Some document_id))
          else find_document_id rest doc_type)"

text \<open>
  One pass of the upload loop per document; every exception raised inside the \<^verbatim>\<open>try\<close> is
  logged and the document type is left out of \<open>document_ids\<close>.
\<close>

fun upload_loop ::
  "env \<Rightarrow> pyval \<Rightarrow> (string \<times> string) list \<Rightarrow> (string \<times> pyval) list \<Rightarrow> world
     \<Rightarrow> (string \<times> pyval) list \<times> world"
where
  "upload_loop env record_id [] document_ids w = (document_ids, w)"
| "upload_loop env record_id ((doc_type, file_path) # rest) document_ids w =
     (case perform env (UploadDocument record_id file_path doc_type) w of
        (Inl e, w1) \<Rightarrow> upload_loop env record_id rest document_ids w1
      | (Inr upload_response, w1) \<Rightarrow>
          (case perform env (GetRecordDetails record_id) w1 of
             (Inl e, w2) \<Rightarrow> upload_loop env record_id rest document_ids w2
           | (Inr record_details, w2) \<Rightarrow>
               (case py_get record_details ''documents'' (PList []) of
                  Inl e \<Rightarrow> upload_loop env record_id rest document_ids w2
                | Inr docs \<Rightarrow>
                    (case py_iter docs of
                       Inl e \<Rightarrow> upload_loop env record_id rest document_ids w2
                     | Inr ds \<Rightarrow>
                         (case find_document_id ds doc_type of
                            Inl e \<Rightarrow> upload_loop env record_id rest document_ids w2
                          | Inr None \<Rightarrow> upload_loop env record_id rest document_ids w2
                          | Inr (Some document_id) \<Rightarrow>
                              upload_loop env record_id rest
                                (AList.update doc_type document_id document_ids) w2)))))"

text \<open>
  The result dictionary \<^verbatim>\<open>{"id": ..., "document_ids": ...}\<close> is the pair of its two values.
\<close>

definition create_and_upload ::
  "env \<Rightarrow> (string \<times> string) list \<Rightarrow> string \<Rightarrow> world
     \<Rightarrow> (exn + (pyval \<times> (string \<times> pyval) list) option) \<times> world"
where
  "create_and_upload env documents config_name w =
     (case perform env (CreateRecord config_name) w of
        (Inl e, w1) \<Rightarrow> (Inl e, w1)
      | (Inr record_response, w1) \<Rightarrow>
          (case py_get record_response ''id'' PNone of
             Inl e \<Rightarrow> (Inl e, w1)
           | Inr record_id \<Rightarrow>
               if \<not> truthy record_id then (Inr None, w1)
               else (case upload_loop env record_id documents [] w1 of
                       (document_ids, w2) \<Rightarrow>
                         if document_ids = [] then (Inr None, w2)
                         else (Inr (Some (record_id, document_ids)), w2))))"

section \<open>_wait_for_embedding (exec.py, lines 326-382)\<close>

text \<open>
  One round of the \<^verbatim>\<open>for\<close> loop: it runs over all of \<open>document_ids\<close> and collects the
  documents whose status is not \<^verbatim>\<open>complete\<close>.
\<close>

fun check_documents ::
  "env \<Rightarrow> (string \<times> pyval) list \<Rightarrow> (string \<times> pyval \<times> pyval) list \<Rightarrow> world
     \<Rightarrow> (string \<times> pyval \<times> pyval) list \<times> world"
where
  "check_documents env [] pending_documents w = (pending_documents, w)"
| "check_documents env ((doc_type, doc_id) # rest) pending_documents w =
     (case perform env (GetDocumentStatus doc_id) w of
        (Inl e, w1) \<Rightarrow>
          check_documents env rest (pending_documents @ [(doc_type, doc_id, PStr ''error'')]) w1
      | (Inr doc_status, w1) \<Rightarrow>
          (case py_get doc_status ''status'' PNone of
             Inl e \<Rightarrow>
               check_documents env rest (pending_documents @ [(doc_type, doc_id, PStr ''error'')]) w1
           | Inr status \<Rightarrow>
               if status \<noteq> PStr ''complete'' then
                 check_documents env rest (pending_documents @ [(doc_type, doc_id, status)]) w1
               else check_documents env rest pending_documents w1))"

partial_function (option) embedding_loop ::
  "env \<Rightarrow> (string \<times> pyval) list \<Rightarrow> int \<Rightarrow> int \<Rightarrow> real \<Rightarrow> world \<Rightarrow> ((exn + bool) \<times> world) option"
where
  "embedding_loop env document_ids check_interval timeout start_time w =
     (if clock w - start_time < real_of_int timeout then
        (case check_documents env document_ids [] w of
           (pending_documents, w1) \<Rightarrow>
             if pending_documents = [] then Some (Inr True, w1)
             else (case sleep env check_interval w1 of
                     (Inl e, w2) \<Rightarrow> Some (Inl e, w2)
                   | (Inr u, w2) \<Rightarrow>
                       embedding_loop env document_ids check_interval timeout start_time w2))
      else Some (Inr False, w))"

definition wait_for_embedding ::
  "env \<Rightarrow> (string \<times> pyval) list \<Rightarrow> int \<Rightarrow> int \<Rightarrow> world \<Rightarrow> ((exn + bool) \<times> world) option"
where
  "wait_for_embedding env document_ids check_interval timeout w =
     embedding_loop env document_ids check_interval timeout (clock w) w"

section \<open>_verify_all_documents (exec.py, lines 384-418)\<close>

fun verify_loop ::
  "env \<Rightarrow> pyval \<Rightarrow> (string \<times> pyval) list \<Rightarrow> (string \<times> pyval) list \<Rightarrow> bool \<Rightarrow> world
     \<Rightarrow> ((string \<times> pyval) list \<times> bool) \<times> world"
where
  "verify_loop env record_id [] verification_results verification_passed w =
     ((verification_results, verification_passed), w)"
| "verify_loop env record_id ((doc_type, doc_id) # rest) verification_results verification_passed w =
     (if truthy doc_id then
        (case verify_document_type env record_id doc_id w of
           (Inr (is_valid, verification), w1) \<Rightarrow>
             verify_loop env record_id rest
               (AList.update doc_type verification verification_results)
               (if \<not> is_valid then False else verification_passed) w1
         | (Inl e, w1) \<Rightarrow>
             verify_loop env record_id rest
               (AList.update doc_type (verification_error e) verification_results) False w1)
      else verify_loop env record_id rest verification_results verification_passed w)"

definition verify_all_documents ::
  "env \<Rightarrow> pyval \<Rightarrow> (string \<times> pyval) list \<Rightarrow> world \<Rightarrow> ((string \<times> pyval) list \<times> bool) \<times> world"
where
  "verify_all_documents env record_id document_ids w = verify_loop env record_id document_ids [] True w"

section \<open>_process_record (exec.py, lines 420-474)\<close>

text \<open>The last three lines: the current record details with the verification results added.\<close>

definition record_with_results ::
  "env \<Rightarrow> pyval \<Rightarrow> (string \<times> pyval) list \<Rightarrow> world \<Rightarrow> (exn + pyval) \<times> world"
where
  "record_with_results env record_id verification_results w =
     (case perform env (GetRecordDetails record_id) w of
        (Inl e, w1) \<Rightarrow> (Inl e, w1)
      | (Inr record_details, w1) \<Rightarrow>
          (py_setitem record_details ''verification_results'' (PDict verification_results), w1))"

text \<open>
  \<^verbatim>\<open>wait_for_record_completion\<close> is called with the default polling interval of 10 seconds
  and the handler's own callback. A \<^verbatim>\<open>TimeoutError\<close> or \<^verbatim>\<open>NebuiaError\<close> of the wait is caught by
  the inner handlers, anything else raised inside the outer \<^verbatim>\<open>try\<close> by \<^verbatim>\<open>except Exception\<close>;
  all of them fall through to the last three lines, which are outside every \<^verbatim>\<open>try\<close>.
\<close>

definition process_record ::
  "env \<Rightarrow> pyval \<Rightarrow> (string \<times> pyval) list \<Rightarrow> bool \<Rightarrow> int \<Rightarrow> world \<Rightarrow> ((exn + pyval) \<times> world) option"
where
  "process_record env record_id verification_results wait_for_completion timeout w =
     (case perform env (CreateProcessingJob record_id) w of
        (Inl e, w1) \<Rightarrow> Some (record_with_results env record_id verification_results w1)
      | (Inr job_response, w1) \<Rightarrow>
          (case py_get job_response ''job_id'' PNone of
             Inl e \<Rightarrow> Some (record_with_results env record_id verification_results w1)
           | Inr job_id \<Rightarrow>
               if wait_for_completion then
                 (case wait_for_record_completion env record_id timeout 10 (Some status_callback) w1 of
                    None \<Rightarrow> None
                  | Some (Inr completed_record, w2) \<Rightarrow>
                      (case py_setitem completed_record ''verification_results'' (PDict verification_results) of
                         Inr completed_record' \<Rightarrow> Some (Inr completed_record', w2)
                       | Inl e \<Rightarrow> Some (record_with_results env record_id verification_results w2))
                  | Some (Inl e, w2) \<Rightarrow>
                      if is_TimeoutError e then Some (record_with_results env record_id verification_results w2)
                      else if is_NebuiaError e then Some (record_with_results env record_id verification_results w2)
                      else Some (record_with_results env record_id verification_results w2))
               else Some (record_with_results env record_id verification_results w1)))"

section \<open>process_documents (exec.py, lines 193-274)\<close>

text \<open>The body of the \<^verbatim>\<open>try\<close> block; \<^verbatim>\<open>Inr PNone\<close> is \<^verbatim>\<open>return None\<close>.\<close>

definition process_documents_body ::
  "env \<Rightarrow> (string \<times> string) list \<Rightarrow> string \<Rightarrow> bool \<Rightarrow> int \<Rightarrow> bool \<Rightarrow> int \<Rightarrow> int \<Rightarrow> world
     \<Rightarrow> ((exn + pyval) \<times> world) option"
where
  "process_documents_body env documents config_name wait_for_completion timeout auto_process
       status_check_interval status_check_timeout w =
     (case validate_documents (file_exists env) documents of
        Inl e \<Rightarrow> Some (Inl e, w)
      | Inr valid_documents \<Rightarrow>
          if valid_documents = [] then Some (Inr PNone, w)
          else
            (case create_and_upload env valid_documents config_name w of
               (Inl e, w1) \<Rightarrow> Some (Inl e, w1)
             | (Inr None, w1) \<Rightarrow> Some (Inr PNone, w1)
             | (Inr (Some (record_id, document_ids)), w1) \<Rightarrow>
                 (case wait_for_embedding env document_ids status_check_interval status_check_timeout w1 of
                    None \<Rightarrow> None
                  | Some (Inl e, w2) \<Rightarrow> Some (Inl e, w2)
                  | Some (Inr embedding_success, w2) \<Rightarrow>
                      if \<not> embedding_success then Some (perform env (GetRecordDetails record_id) w2)
                      else
                        (case verify_all_documents env record_id document_ids w2 of
                           ((verification_results, verification_passed), w3) \<Rightarrow>
                             (case perform env (GetRecordDetails record_id) w3 of
                                (Inl e, w4) \<Rightarrow> Some (Inl e, w4)
                              | (Inr record_details0, w4) \<Rightarrow>
                                  (case py_setitem record_details0 ''verification_results''
                                          (PDict verification_results) of
                                     Inl e \<Rightarrow> Some (Inl e, w4)
                                   | Inr record_details \<Rightarrow>
                                       if auto_process \<and> verification_passed then
                                         process_record env record_id verification_results
                                           wait_for_completion timeout w4
                                       else Some (Inr record_details, w4)))))))"

text \<open>\<^verbatim>\<open>except Exception\<close>: the error is logged and the function returns \<^verbatim>\<open>None\<close>.\<close>

definition process_documents ::
  "env \<Rightarrow> (string \<times> string) list \<Rightarrow> string \<Rightarrow> bool \<Rightarrow> int \<Rightarrow> bool \<Rightarrow> int \<Rightarrow> int \<Rightarrow> world
     \<Rightarrow> ((exn + pyval) \<times> world) option"
where
  "process_documents env documents config_name wait_for_completion timeout auto_process
       status_check_interval status_check_timeout w =
     (case process_documents_body env documents config_name wait_for_completion timeout auto_process
             status_check_interval status_check_timeout w of
        None \<Rightarrow> None
      | Some (Inl e, w1) \<Rightarrow> Some (Inr PNone, w1)
      | Some (Inr result, w1) \<Rightarrow> Some (Inr result, w1))"

section \<open>extract_document_entities (exec.py, lines 476-515)\<close>

text \<open>
  \<open>extracted_info\<close> is keyed by the documents' types, which may be any hashable value. As
  dictionary keys \<^verbatim>\<open>True\<close> and \<^verbatim>\<open>1\<close> (and \<^verbatim>\<open>False\<close> and \<^verbatim>\<open>0\<close>) are the same key; an assignment to
  a key that is present keeps the key object and its position.
\<close>

fun key_norm :: "pyval \<Rightarrow> pyval" where
  "key_norm (PBool b) = PInt (if b then 1 else 0)"
| "key_norm v = v"

fun info_lookup :: "(pyval \<times> 'v) list \<Rightarrow> pyval \<Rightarrow> 'v option" where
  "info_lookup [] k = None"
| "info_lookup ((k', v) # rest) k = (if key_norm k' = key_norm k then Some v else info_lookup rest k)"

fun info_update :: "pyval \<Rightarrow> 'v \<Rightarrow> (pyval \<times> 'v) list \<Rightarrow> (pyval \<times> 'v) list" where
  "info_update k v [] = [(k, v)]"
| "info_update k v ((k', v') # rest) =
     (if key_norm k' = key_norm k then (k', v) # rest else (k', v') # info_update k v rest)"

text \<open>
  What one pass of the inner loop appends: nothing for an entity without a
  \<^verbatim>\<open>structure\<close>, else the copy of the structure without its \<^verbatim>\<open>name_to_show\<close>.
\<close>

definition clean_entity :: "pyval \<Rightarrow> exn + pyval option" where
  "clean_entity entity =
     (case py_contains ''structure'' entity of
        Inl e \<Rightarrow> Inl e
      | Inr has_structure \<Rightarrow>
          if \<not> has_structure then Inr None
          else (case py_getitem entity ''structure'' of
                  Inl e \<Rightarrow> Inl e
                | Inr s \<Rightarrow>
                    (case py_copy s of
                       Inl e \<Rightarrow> Inl e
                     | Inr structure \<Rightarrow>
                         (case py_contains ''name_to_show'' structure of
                            Inl e \<Rightarrow> Inl e
                          | Inr has_name \<Rightarrow>
                              if has_name then
                                (case py_delitem structure ''name_to_show'' of
                                   Inl e \<Rightarrow> Inl e
                                 | Inr structure' \<Rightarrow> Inr (Some structure'))
                              else Inr (Some structure)))))"

fun entities_loop :: "pyval list \<Rightarrow> pyval list \<Rightarrow> exn + pyval list" where
  "entities_loop [] cleaned = Inr cleaned"
| "entities_loop (entity # rest) cleaned =
     (case clean_entity entity of
        Inl e \<Rightarrow> Inl e
      | Inr None \<Rightarrow> entities_loop rest cleaned
      | Inr (Some structure) \<Rightarrow> entities_loop rest (cleaned @ [structure]))"

fun documents_loop :: "pyval list \<Rightarrow> (pyval \<times> pyval list) list \<Rightarrow> exn + (pyval \<times> pyval list) list" where
  "documents_loop [] extracted_info = Inr extracted_info"
| "documents_loop (document # rest) extracted_info =
     (case py_get document ''document_type'' (PStr ''unknown'') of
        Inl e \<Rightarrow> Inl e
      | Inr doc_type \<Rightarrow>
          (case py_get document ''entities'' (PList []) of
             Inl e \<Rightarrow> Inl e
           | Inr entities \<Rightarrow>
               if \<not> hashable doc_type then
                 Inl (Exn TypeError (''unhashable type: '' @ quoted (type_name doc_type)))
               else
                 (let info1 = (if info_lookup extracted_info doc_type = None
                               then info_update doc_type [] extracted_info
                               else extracted_info)
                  in case py_iter entities of
                       Inl e \<Rightarrow> Inl e
                     | Inr es \<Rightarrow>
                         (case entities_loop es (case info_lookup info1 doc_type of
                                                   Some cleaned \<Rightarrow> cleaned | None \<Rightarrow> []) of
                            Inl e \<Rightarrow> Inl e
                          | Inr cleaned \<Rightarrow> documents_loop rest (info_update doc_type cleaned info1)))))"

definition extract_document_entities :: "pyval \<Rightarrow> exn + (pyval \<times> pyval list) list" where
  "extract_document_entities record_result =
     (if \<not> truthy record_result then Inr []
      else (case py_contains ''documents'' record_result of
              Inl e \<Rightarrow> Inl e
            | Inr has_documents \<Rightarrow>
                if \<not> has_documents then Inr []
                else (case py_getitem record_result ''documents'' of
                        Inl e \<Rightarrow> Inl e
                      | Inr documents \<Rightarrow>
                          (case py_iter documents of
                             Inl e \<Rightarrow> Inl e
                           | Inr ds \<Rightarrow> documents_loop ds []))))"

section \<open>extract_document_entities on a store of objects\<close>

text \<open>
  Whether the function changes its argument depends on which dictionaries are shared, so
  here lists and dictionaries are objects in a store and a value refers to them by
  address. A new object gets the next free address; \<^verbatim>\<open>.copy()\<close> makes a new object with the
  same items (a shallow copy), \<^verbatim>\<open>del\<close>, item assignment and \<^verbatim>\<open>.append\<close> change the object
  they are applied to.
\<close>

datatype hval = HNone | HBool bool | HInt int | HStr string | HRef nat

datatype hobj = HList "hval list" | HDict "(hval \<times> hval) list"

type_synonym heap = "hobj list"

text \<open>What a value is, looked up in the store. An address outside the store is no object.\<close>

datatype view =
    VNone | VBool bool | VInt int | VStr string
  | VList "hval list" | VDict "(hval \<times> hval) list" | VDangling

fun h_view :: "heap \<Rightarrow> hval \<Rightarrow> view" where
  "h_view h HNone = VNone"
| "h_view h (HBool b) = VBool b"
| "h_view h (HInt n) = VInt n"
| "h_view h (HStr s) = VStr s"
| "h_view h (HRef a) =
     (if a < length h then (case h ! a of HList xs \<Rightarrow> VList xs | HDict kvs \<Rightarrow> VDict kvs)
      else VDangling)"

fun view_type_name :: "view \<Rightarrow> string" where
  "view_type_name VNone = ''NoneType''"
| "view_type_name (VBool b) = ''bool''"
| "view_type_name (VInt n) = ''int''"
| "view_type_name (VStr s) = ''str''"
| "view_type_name (VList xs) = ''list''"
| "view_type_name (VDict kvs) = ''dict''"
| "view_type_name VDangling = ''object''"

definition h_alloc :: "heap \<Rightarrow> hobj \<Rightarrow> heap \<times> hval" where
  "h_alloc h obj = (h @ [obj], HRef (length h))"

definition h_truthy :: "heap \<Rightarrow> hval \<Rightarrow> bool" where
  "h_truthy h v =
     (case h_view h v of
        VNone \<Rightarrow> False | VBool b \<Rightarrow> b | VInt n \<Rightarrow> n \<noteq> 0 | VStr s \<Rightarrow> s \<noteq> []
      | VList xs \<Rightarrow> xs \<noteq> [] | VDict kvs \<Rightarrow> kvs \<noteq> [] | VDangling \<Rightarrow> True)"

definition h_get :: "heap \<Rightarrow> hval \<Rightarrow> string \<Rightarrow> hval \<Rightarrow> exn + hval" where
  "h_get h v k d =
     (case h_view h v of
        VDict kvs \<Rightarrow> Inr (case map_of kvs (HStr k) of Some x \<Rightarrow> x | None \<Rightarrow> d)
      | vw \<Rightarrow> Inl (Exn AttributeError
                (quoted (view_type_name vw) @ '' object has no attribute '' @ quoted ''get'')))"

definition h_contains :: "heap \<Rightarrow> string \<Rightarrow> hval \<Rightarrow> exn + bool" where
  "h_contains h k v =
     (case h_view h v of
        VDict kvs \<Rightarrow> Inr (HStr k \<in> fst ` set kvs)
      | VList xs \<Rightarrow> Inr (HStr k \<in> set xs)
      | VStr s \<Rightarrow> Inr (sublist k s)
      | vw \<Rightarrow> Inl (Exn TypeError (''argument of type '' @ quoted (view_type_name vw) @ '' is not iterable'')))"

definition h_iter :: "heap \<Rightarrow> hval \<Rightarrow> exn + hval list" where
  "h_iter h v =
     (case h_view h v of
        VList xs \<Rightarrow> Inr xs
      | VDict kvs \<Rightarrow> Inr (map fst kvs)
      | VStr s \<Rightarrow> Inr (map (\<lambda>c. HStr [c]) s)
      | vw \<Rightarrow> Inl (Exn TypeError (quoted (view_type_name vw) @ '' object is not iterable'')))"

definition h_getitem :: "heap \<Rightarrow> hval \<Rightarrow> string \<Rightarrow> exn + hval" where
  "h_getitem h v k =
     (case h_view h v of
        VDict kvs \<Rightarrow> (case map_of kvs (HStr k) of Some x \<Rightarrow> Inr x | None \<Rightarrow> Inl (Exn KeyError (quoted k)))
      | VList xs \<Rightarrow> Inl (Exn TypeError ''list indices must be integers or slices, not str'')
      | VStr s \<Rightarrow> Inl (Exn TypeError ''string indices must be integers'')
      | vw \<Rightarrow> Inl (Exn TypeError (quoted (view_type_name vw) @ '' object is not subscriptable'')))"

text \<open>\<^verbatim>\<open>v.copy()\<close>: a new object with the items of the old one.\<close>

definition h_copy :: "heap \<Rightarrow> hval \<Rightarrow> heap \<times> (exn + hval)" where
  "h_copy h v =
     (case h_view h v of
        VDict kvs \<Rightarrow> (h @ [HDict kvs], Inr (HRef (length h)))
      | VList xs \<Rightarrow> (h @ [HList xs], Inr (HRef (length h)))
      | vw \<Rightarrow> (h, Inl (Exn AttributeError
                 (quoted (view_type_name vw) @ '' object has no attribute '' @ quoted ''copy''))))"

text \<open>\<^verbatim>\<open>del v[k]\<close> changes the object \<open>v\<close> refers to.\<close>

fun h_delitem :: "heap \<Rightarrow> hval \<Rightarrow> string \<Rightarrow> heap \<times> (exn + unit)" where
  "h_delitem h (HRef a) k =
     (case h_view h (HRef a) of
        VDict kvs \<Rightarrow>
          if HStr k \<in> fst ` set kvs then (h[a := HDict (AList.delete (HStr k) kvs)], Inr ())
          else (h, Inl (Exn KeyError (quoted k)))
      | VList xs \<Rightarrow> (h, Inl (Exn TypeError ''list indices must be integers or slices, not str''))
      | vw \<Rightarrow> (h, Inl (Exn TypeError (quoted (view_type_name vw) @ '' object does not support item deletion''))))"
| "h_delitem h v k =
     (h, Inl (Exn TypeError (quoted (view_type_name (h_view h v)) @ '' object does not support item deletion'')))"

text \<open>\<^verbatim>\<open>v.append(x)\<close> changes the list \<open>v\<close> refers to.\<close>

fun h_append :: "heap \<Rightarrow> hval \<Rightarrow> hval \<Rightarrow> heap \<times> (exn + unit)" where
  "h_append h (HRef a) x =
     (case h_view h (HRef a) of
        VList xs \<Rightarrow> (h[a := HList (xs @ [x])], Inr ())
      | vw \<Rightarrow> (h, Inl (Exn AttributeError
                 (quoted (view_type_name vw) @ '' object has no attribute '' @ quoted ''append''))))"
| "h_append h v x =
     (h, Inl (Exn AttributeError
        (quoted (view_type_name (h_view h v)) @ '' object has no attribute '' @ quoted ''append'')))"

text \<open>
  The operations on \<open>extracted_info\<close>, whose keys are the documents' types: a key must be
  hashable, and keys are compared as Python compares them.
\<close>

definition h_hashable :: "heap \<Rightarrow> hval \<Rightarrow> bool" where
  "h_hashable h v = (case h_view h v of VList xs \<Rightarrow> False | VDict kvs \<Rightarrow> False | vw \<Rightarrow> True)"

fun hkey_norm :: "hval \<Rightarrow> hval" where
  "hkey_norm (HBool b) = HInt (if b then 1 else 0)"
| "hkey_norm v = v"

fun hkey_lookup :: "(hval \<times> hval) list \<Rightarrow> hval \<Rightarrow> hval option" where
  "hkey_lookup [] k = None"
| "hkey_lookup ((k', v) # rest) k = (if hkey_norm k' = hkey_norm k then Some v else hkey_lookup rest k)"

fun hkey_update :: "hval \<Rightarrow> hval \<Rightarrow> (hval \<times> hval) list \<Rightarrow> (hval \<times> hval) list" where
  "hkey_update k v [] = [(k, v)]"
| "hkey_update k v ((k', v') # rest) =
     (if hkey_norm k' = hkey_norm k then (k', v) # rest else (k', v') # hkey_update k v rest)"

definition unhashable :: "heap \<Rightarrow> hval \<Rightarrow> exn" where
  "unhashable h k = Exn TypeError (''unhashable type: '' @ quoted (view_type_name (h_view h k)))"

text \<open>
  \<^verbatim>\<open>k in d\<close> and \<^verbatim>\<open>d[k]\<close> for the dictionary \<open>d\<close>. The message of the \<^verbatim>\<open>KeyError\<close>, the key's
  \<^verbatim>\<open>repr\<close>, is left empty.
\<close>

definition h_has_key :: "heap \<Rightarrow> hval \<Rightarrow> hval \<Rightarrow> exn + bool" where
  "h_has_key h d k =
     (case h_view h d of
        VDict kvs \<Rightarrow> if h_hashable h k then Inr (hkey_lookup kvs k \<noteq> None) else Inl (unhashable h k)
      | vw \<Rightarrow> Inl (Exn TypeError (''argument of type '' @ quoted (view_type_name vw) @ '' is not iterable'')))"

definition h_item :: "heap \<Rightarrow> hval \<Rightarrow> hval \<Rightarrow> exn + hval" where
  "h_item h d k =
     (case h_view h d of
        VDict kvs \<Rightarrow>
          if h_hashable h k then
            (case hkey_lookup kvs k of Some x \<Rightarrow> Inr x | None \<Rightarrow> Inl (Exn KeyError []))
          else Inl (unhashable h k)
      | vw \<Rightarrow> Inl (Exn TypeError (quoted (view_type_name vw) @ '' object is not subscriptable'')))"

text \<open>\<^verbatim>\<open>d[k] = x\<close> changes the dictionary \<open>d\<close> refers to.\<close>

fun h_setitem :: "heap \<Rightarrow> hval \<Rightarrow> hval \<Rightarrow> hval \<Rightarrow> heap \<times> (exn + unit)" where
  "h_setitem h (HRef a) k x =
     (case h_view h (HRef a) of
        VDict kvs \<Rightarrow>
          if h_hashable h k then (h[a := HDict (hkey_update k x kvs)], Inr ())
          else (h, Inl (unhashable h k))
      | vw \<Rightarrow> (h, Inl (Exn TypeError (quoted (view_type_name vw) @ '' object does not support item assignment''))))"
| "h_setitem h v k x =
     (h, Inl (Exn TypeError (quoted (view_type_name (h_view h v)) @ '' object does not support item assignment'')))"

text \<open>Lines 504-513, for one entity: the cleaned copy, when the entity has a structure.\<close>

definition h_clean_entity :: "heap \<Rightarrow> hval \<Rightarrow> heap \<times> (exn + hval option)" where
  "h_clean_entity h entity =
     (case h_contains h ''structure'' entity of
        Inl e \<Rightarrow> (h, Inl e)
      | Inr has_structure \<Rightarrow>
          if \<not> has_structure then (h, Inr None)
          else (case h_getitem h entity ''structure'' of
                  Inl e \<Rightarrow> (h, Inl e)
                | Inr s \<Rightarrow>
                    (case h_copy h s of
                       (h1, Inl e) \<Rightarrow> (h1, Inl e)
                     | (h1, Inr structure) \<Rightarrow>
                         (case h_contains h1 ''name_to_show'' structure of
                            Inl e \<Rightarrow> (h1, Inl e)
                          | Inr has_name \<Rightarrow>
                              if has_name then
                                (case h_delitem h1 structure ''name_to_show'' of
                                   (h2, Inl e) \<Rightarrow> (h2, Inl e)
                                 | (h2, Inr u) \<Rightarrow> (h2, Inr (Some structure)))
                              else (h1, Inr (Some structure))))))"

fun h_entities_loop :: "heap \<Rightarrow> hval list \<Rightarrow> hval \<Rightarrow> hval \<Rightarrow> heap \<times> (exn + unit)" where
  "h_entities_loop h [] extracted_info doc_type = (h, Inr ())"
| "h_entities_loop h (entity # rest) extracted_info doc_type =
     (case h_clean_entity h entity of
        (h1, Inl e) \<Rightarrow> (h1, Inl e)
      | (h1, Inr None) \<Rightarrow> h_entities_loop h1 rest extracted_info doc_type
      | (h1, Inr (Some structure)) \<Rightarrow>
          (case h_item h1 extracted_info doc_type of
             Inl e \<Rightarrow> (h1, Inl e)
           | Inr cleaned \<Rightarrow>
               (case h_append h1 cleaned structure of
                  (h2, Inl e) \<Rightarrow> (h2, Inl e)
                | (h2, Inr u) \<Rightarrow> h_entities_loop h2 rest extracted_info doc_type)))"

text \<open>
  Lines 494-513, for the documents. The default \<^verbatim>\<open>[]\<close> of \<^verbatim>\<open>document.get('entities', [])\<close>
  and the \<^verbatim>\<open>[]\<close> stored under a new type are new list objects.
\<close>

fun h_documents_loop :: "heap \<Rightarrow> hval list \<Rightarrow> hval \<Rightarrow> heap \<times> (exn + unit)" where
  "h_documents_loop h [] extracted_info = (h, Inr ())"
| "h_documents_loop h (document # rest) extracted_info =
     (case h_get h document ''document_type'' (HStr ''unknown'') of
        Inl e \<Rightarrow> (h, Inl e)
      | Inr doc_type \<Rightarrow>
          (case h_alloc h (HList []) of
             (h1, empty_default) \<Rightarrow>
               (case h_get h1 document ''entities'' empty_default of
                  Inl e \<Rightarrow> (h1, Inl e)
                | Inr entities \<Rightarrow>
                    (case h_has_key h1 extracted_info doc_type of
                       Inl e \<Rightarrow> (h1, Inl e)
                     | Inr present \<Rightarrow>
                         (case (if \<not> present then
                                  (case h_alloc h1 (HList []) of
                                     (h2, empty_list) \<Rightarrow> h_setitem h2 extracted_info doc_type empty_list)
                                else (h1, Inr ())) of
                            (h3, Inl e) \<Rightarrow> (h3, Inl e)
                          | (h3, Inr u) \<Rightarrow>
                              (case h_iter h3 entities of
                                 Inl e \<Rightarrow> (h3, Inl e)
                               | Inr es \<Rightarrow>
                                   (case h_entities_loop h3 es extracted_info doc_type of
                                      (h4, Inl e) \<Rightarrow> (h4, Inl e)
                                    | (h4, Inr u') \<Rightarrow> h_documents_loop h4 rest extracted_info)))))))"

definition extract_document_entities_heap :: "heap \<Rightarrow> hval \<Rightarrow> heap \<times> (exn + hval)" where
  "extract_document_entities_heap h record_result =
     (case h_alloc h (HDict []) of
        (h1, extracted_info) \<Rightarrow>
          if \<not> h_truthy h1 record_result then (h1, Inr extracted_info)
          else (case h_contains h1 ''documents'' record_result of
                  Inl e \<Rightarrow> (h1, Inl e)
                | Inr has_documents \<Rightarrow>
                    if \<not> has_documents then (h1, Inr extracted_info)
                    else (case h_getitem h1 record_result ''documents'' of
                            Inl e \<Rightarrow> (h1, Inl e)
                          | Inr documents \<Rightarrow>
                              (case h_iter h1 documents of
                                 Inl e \<Rightarrow> (h1, Inl e)
                               | Inr ds \<Rightarrow>
                                   (case h_documents_loop h1 ds extracted_info of
                                      (h2, Inl e) \<Rightarrow> (h2, Inl e)
                                    | (h2, Inr u) \<Rightarrow> (h2, Inr extracted_info))))))"

section \<open>Specification: the documents that are kept\<close>

text \<open>
  A path is kept when it exists and its suffix is \<^verbatim>\<open>.pdf\<close> in any case. The first entry, in
  the order of the mapping, on which \<^verbatim>\<open>path.exists()\<close> raises ends the validation with that
  exception.
\<close>

definition is_valid_pdf :: "(string \<Rightarrow> exn + bool) \<Rightarrow> string \<Rightarrow> bool" where
  "is_valid_pdf on_disk file_path =
     (on_disk (path_str (Path file_path)) = Inr True \<and>
      str_lower (path_suffix (Path file_path)) = ''.pdf'')"

fun first_error :: "(string \<Rightarrow> exn + bool) \<Rightarrow> (string \<times> string) list \<Rightarrow> exn option" where
  "first_error on_disk [] = None"
| "first_error on_disk ((doc_type, file_path) # rest) =
     (case on_disk (path_str (Path file_path)) of
        Inl e \<Rightarrow> Some e
      | Inr found \<Rightarrow> first_error on_disk rest)"

text \<open>Local storage on which one file is missing, and on which one directory is locked.\<close>

definition storage_without :: "string \<Rightarrow> string \<Rightarrow> exn + bool" where
  "storage_without missing p = Inr (p \<noteq> missing)"

definition storage_locked :: "string \<Rightarrow> string \<Rightarrow> exn + bool" where
  "storage_locked locked p =
     (if p = locked then Inl (Exn OSError ''[Errno 13] Permission denied'') else Inr True)"

definition all_files :: "string \<Rightarrow> exn + bool" where
  "all_files p = Inr True"

section \<open>Specification: the shape of a Record payload and what is extracted from it\<close>

text \<open>
  A Record payload (spec, sections 3 and 6) is a dictionary whose \<^verbatim>\<open>documents\<close>, when
  present, is a list of documents; a document is a dictionary whose \<^verbatim>\<open>document_type\<close>,
  when present, is a string and whose \<^verbatim>\<open>entities\<close>, when present, is a list of entities; an
  entity is a dictionary whose \<^verbatim>\<open>structure\<close>, when present, is a dictionary.
\<close>

fun is_str :: "pyval \<Rightarrow> bool" where
  "is_str (PStr s) = True"
| "is_str v = False"

fun is_dict :: "pyval \<Rightarrow> bool" where
  "is_dict (PDict kvs) = True"
| "is_dict v = False"

definition wf_entity :: "pyval \<Rightarrow> bool" where
  "wf_entity entity =
     (case entity of
        PDict kvs \<Rightarrow> (case map_of kvs ''structure'' of None \<Rightarrow> True | Some s \<Rightarrow> is_dict s)
      | _ \<Rightarrow> False)"

definition wf_document :: "pyval \<Rightarrow> bool" where
  "wf_document document =
     (case document of
        PDict kvs \<Rightarrow>
          (case map_of kvs ''document_type'' of None \<Rightarrow> True | Some t \<Rightarrow> is_str t) \<and>
          (case map_of kvs ''entities'' of
             None \<Rightarrow> True
           | Some (PList es) \<Rightarrow> list_all wf_entity es
           | Some _ \<Rightarrow> False)
      | _ \<Rightarrow> False)"

definition wf_record :: "pyval \<Rightarrow> bool" where
  "wf_record record_result =
     (case record_result of
        PDict kvs \<Rightarrow>
          (case map_of kvs ''documents'' of
             None \<Rightarrow> True
           | Some (PList ds) \<Rightarrow> list_all wf_document ds
           | Some _ \<Rightarrow> False)
      | _ \<Rightarrow> False)"

definition documents_of :: "pyval \<Rightarrow> pyval list" where
  "documents_of record_result =
     (case record_result of
        PDict kvs \<Rightarrow> (case map_of kvs ''documents'' of Some (PList ds) \<Rightarrow> ds | _ \<Rightarrow> [])
      | _ \<Rightarrow> [])"

definition document_type_of :: "pyval \<Rightarrow> pyval" where
  "document_type_of document =
     (case document of
        PDict kvs \<Rightarrow> (case map_of kvs ''document_type'' of Some t \<Rightarrow> t | None \<Rightarrow> PStr ''unknown'')
      | _ \<Rightarrow> PStr ''unknown'')"

definition entities_of :: "pyval \<Rightarrow> pyval list" where
  "entities_of document =
     (case document of
        PDict kvs \<Rightarrow> (case map_of kvs ''entities'' of Some (PList es) \<Rightarrow> es | _ \<Rightarrow> [])
      | _ \<Rightarrow> [])"

definition stripped_structure :: "pyval \<Rightarrow> pyval list" where
  "stripped_structure entity =
     (case entity of
        PDict kvs \<Rightarrow>
          (case map_of kvs ''structure'' of
             Some (PDict items) \<Rightarrow> [PDict (AList.delete ''name_to_show'' items)]
           | _ \<Rightarrow> [])
      | _ \<Rightarrow> [])"

definition structures_of :: "pyval \<Rightarrow> pyval list" where
  "structures_of document = concat (map stripped_structure (entities_of document))"

text \<open>What one pass of the outer loop does to the result, on a well-formed document.\<close>

definition add_document :: "pyval \<Rightarrow> (pyval \<times> pyval list) list \<Rightarrow> (pyval \<times> pyval list) list" where
  "add_document document info =
     AList.update (document_type_of document)
       ((case map_of info (document_type_of document) of Some cleaned \<Rightarrow> cleaned | None \<Rightarrow> [])
          @ structures_of document) info"

definition example_record :: pyval where
  "example_record =
     PDict [(''status'', PStr ''complete''),
            (''documents'', PList
               [PDict [(''document_id'', PStr ''d1''), (''document_type'', PStr ''invoice''),
                       (''entities'', PList
                          [PDict [(''structure'', PDict [(''name_to_show'', PStr ''X''), (''value'', PInt 1)])],
                           PDict [(''key'', PStr ''no structure'')]])],
                PDict [(''document_id'', PStr ''d2''), (''document_type'', PStr ''receipt'')]])]"


section \<open>Specification: the trace of a run\<close>

text \<open>The call an event records, and whether a recorded verification passed.\<close>

fun event_call :: "event \<Rightarrow> call option" where
  "event_call (Called c r) = Some c"
| "event_call (Slept n) = None"

definition verification_passes :: "exn + pyval \<Rightarrow> bool" where
  "verification_passes response =
     (case response of
        Inl e \<Rightarrow> False
      | Inr result \<Rightarrow>
          py_get result ''status'' PNone = Inr (PBool True) \<and>
          display_verification_points result = Inr ())"

fun passed_verification :: "event \<Rightarrow> bool" where
  "passed_verification (Called (VerifyDocumentType record_id document_id) response) =
     verification_passes response"
| "passed_verification ev = True"

text \<open>A document id the verification loop does not skip.\<close>

definition has_id :: "string \<times> pyval \<Rightarrow> bool" where
  "has_id entry = truthy (snd entry)"

text \<open>
  An environment that answers the \<open>k\<close>-th effect with the \<open>k\<close>-th entry of a list, each
  effect taking the same time, where every file exists and \<^verbatim>\<open>time.sleep\<close> accepts every length
  that is not negative; and the state a run starts in.
\<close>

definition scripted :: "(exn + pyval) list \<Rightarrow> real \<Rightarrow> env" where
  "scripted answers d =
     \<lparr>file_exists = all_files,
      respond = (\<lambda>k c. if k < length answers then answers ! k
                        else Inl (Exn NebuiaError ''Network error'')),
      delay = (\<lambda>k. d),
      sleep_error = (\<lambda>secs. None),
      py_str = (\<lambda>v. case v of PStr s \<Rightarrow> s | _ \<Rightarrow> ''?'')\<rparr>"

definition start :: world where
  "start = \<lparr>clock = 0, trace = []\<rparr>"

definition verified_answer :: pyval where
  "verified_answer = PDict [(''status'', PBool True)]"

definition record_without_document_id :: pyval where
  "record_without_document_id = PDict [(''documents'', PList [PDict [(''document_type'', PStr ''deed'')]])]"


section \<open>Specification: the time a run takes\<close>

text \<open>
  The state after a sequence of effects: each effect takes its delay, a sleep its length
  as well. A sequence of rounds is begun in time when the elapsed time is below the
  timeout at the start of each of them.
\<close>

fun duration :: "event \<Rightarrow> real" where
  "duration (Called c r) = 0"
| "duration (Slept n) = real_of_int n"

fun after_events :: "env \<Rightarrow> world \<Rightarrow> event list \<Rightarrow> world" where
  "after_events env w [] = w"
| "after_events env w (ev # evs) =
     after_events env
       \<lparr>clock = clock w + duration ev + delay env (length (trace w)), trace = trace w @ [ev]\<rparr> evs"

fun begun_in_time :: "env \<Rightarrow> real \<Rightarrow> int \<Rightarrow> world \<Rightarrow> event list list \<Rightarrow> bool" where
  "begun_in_time env start_time timeout w [] = True"
| "begun_in_time env start_time timeout w (r # rs) =
     (clock w - start_time < real_of_int timeout \<and>
      begun_in_time env start_time timeout (after_events env w r) rs)"

section \<open>Specification: polling rounds\<close>

fun reports_complete :: "event \<Rightarrow> bool" where
  "reports_complete (Called c (Inr doc_status)) =
     (py_get doc_status ''status'' PNone = Inr (PStr ''complete''))"
| "reports_complete ev = False"

definition status_round :: "(string \<times> pyval) list \<Rightarrow> event list \<Rightarrow> bool" where
  "status_round document_ids evs =
     (map event_call evs = map (\<lambda>entry. Some (GetDocumentStatus (snd entry))) document_ids)"

definition incomplete_round :: "(string \<times> pyval) list \<Rightarrow> event list \<Rightarrow> bool" where
  "incomplete_round document_ids evs =
     (status_round document_ids evs \<and> \<not> list_all reports_complete evs)"

text \<open>Rounds that are each followed by one sleep of the interval.\<close>

definition with_sleep :: "int \<Rightarrow> event list list \<Rightarrow> event list list" where
  "with_sleep interval rounds = map (\<lambda>r. r @ [Slept interval]) rounds"

definition polled :: "int \<Rightarrow> event list list \<Rightarrow> event list" where
  "polled interval rounds = concat (with_sleep interval rounds)"

definition steady :: "env \<Rightarrow> bool" where
  "steady env = (\<forall>k. 0 \<le> delay env k)"

text \<open>
  How a run of the loop that started in \<open>w\<close> ended in \<open>y\<close>: after rounds that each found an
  item not complete and were each begun in time, either a last round begun in time found
  every item complete, or the elapsed time had reached the timeout, or the first sleep
  raised.
\<close>

definition embedding_post ::
  "env \<Rightarrow> (string \<times> pyval) list \<Rightarrow> int \<Rightarrow> int \<Rightarrow> real \<Rightarrow> world \<Rightarrow> (exn + bool) \<times> world \<Rightarrow> bool"
where
  "embedding_post env document_ids check_interval timeout start_time w y =
     (\<exists>rounds final.
        snd y = after_events env w (polled check_interval rounds @ final) \<and>
        list_all (incomplete_round document_ids) rounds \<and>
        begun_in_time env start_time timeout w (with_sleep check_interval rounds) \<and>
        (fst y = Inr True \<and>
           clock (after_events env w (polled check_interval rounds)) - start_time < real_of_int timeout \<and>
           status_round document_ids final \<and> list_all reports_complete final \<or>
         fst y = Inr False \<and> final = [] \<and> real_of_int timeout \<le> clock (snd y) - start_time \<or>
         (\<exists>e. fst y = Inl e \<and> sleep_exn env check_interval = Some e \<and> rounds = [] \<and>
              clock w - start_time < real_of_int timeout \<and> incomplete_round document_ids final)))"

definition status_is :: "string \<Rightarrow> exn + pyval" where
  "status_is s = Inr (PDict [(''status'', PStr s)])"

definition flaky_service :: env where
  "flaky_service =
     scripted [status_is ''complete'', status_is ''pending'', Inr PNone,
               Inl (Exn NebuiaError ''Network error''), status_is ''complete'', Inr PNone] 0"

definition second_round_service :: env where
  "second_round_service =
     scripted [status_is ''complete'', status_is ''pending'', Inr PNone,
               status_is ''complete'', status_is ''complete''] 0"

definition reached_complete :: "(string \<times> pyval) list \<Rightarrow> event list \<Rightarrow> bool" where
  "reached_complete document_ids evs =
     list_all (\<lambda>entry. list_ex (\<lambda>ev. event_call ev = Some (GetDocumentStatus (snd entry)) \<and>
                                      reports_complete ev) evs) document_ids"

definition status_checks :: "pyval \<Rightarrow> event list \<Rightarrow> nat" where
  "status_checks document_id evs =
     length (filter (\<lambda>ev. event_call ev = Some (GetDocumentStatus document_id)) evs)"

fun is_call :: "event \<Rightarrow> bool" where
  "is_call (Called c r) = True"
| "is_call (Slept n) = False"

section \<open>Specification: the polls of wait_for_record_completion\<close>

text \<open>
  A poll that leaves the record pending: the fetch answers a dictionary whose status is
  neither \<^verbatim>\<open>complete\<close> nor \<^verbatim>\<open>error\<close>, and the loop sleeps for the interval.
\<close>

definition record_status_is :: "string \<Rightarrow> exn + pyval" where
  "record_status_is s = Inr (PDict [(''id'', PStr ''rec-1''), (''status'', PStr s)])"

fun pending_poll :: "pyval \<Rightarrow> int \<Rightarrow> event list \<Rightarrow> bool" where
  "pending_poll record_id polling_interval [Called c (Inr record_details), Slept n] =
     (c = GetRecordDetails record_id \<and> n = polling_interval \<and>
      (case py_get record_details ''status'' (PStr ''unknown'') of
         Inl e \<Rightarrow> False
       | Inr current_status \<Rightarrow> current_status \<noteq> PStr ''complete'' \<and> current_status \<noteq> PStr ''error''))"
| "pending_poll record_id polling_interval evs = False"

text \<open>
  What the callback, when one is given, answers to a fetched status; and a poll, begun in
  the state \<open>w\<close>, whose fetch the callback accepted: it was called with the status, the
  elapsed time after the fetch and the record details, and did not raise.
\<close>

definition notified ::
  "(pyval \<Rightarrow> real \<Rightarrow> pyval \<Rightarrow> exn + unit) option \<Rightarrow> pyval \<Rightarrow> real \<Rightarrow> pyval \<Rightarrow> exn + unit"
where
  "notified callback current_status elapsed_time record_details =
     (case callback of
        Some cb \<Rightarrow> cb current_status elapsed_time record_details
      | None \<Rightarrow> Inr ())"

fun accepted ::
  "env \<Rightarrow> (pyval \<Rightarrow> real \<Rightarrow> pyval \<Rightarrow> exn + unit) option \<Rightarrow> real \<Rightarrow> world \<Rightarrow> event list \<Rightarrow> bool"
where
  "accepted env callback start_time w (Called c (Inr record_details) # evs) =
     (case py_get record_details ''status'' (PStr ''unknown'') of
        Inl e \<Rightarrow> False
      | Inr current_status \<Rightarrow>
          notified callback current_status
            (clock (after_events env w [Called c (Inr record_details)]) - start_time)
            record_details = Inr ())"
| "accepted env callback start_time w evs = False"

fun all_accepted ::
  "env \<Rightarrow> (pyval \<Rightarrow> real \<Rightarrow> pyval \<Rightarrow> exn + unit) option \<Rightarrow> real \<Rightarrow> world \<Rightarrow> event list list \<Rightarrow> bool"
where
  "all_accepted env callback start_time w [] = True"
| "all_accepted env callback start_time w (p # ps) =
     (accepted env callback start_time w p \<and>
      all_accepted env callback start_time (after_events env w p) ps)"

text \<open>
  An exception of the last poll that the loop lets through: the fetch raised it, or the
  answer is not a dictionary, or the callback raised it, or the callback accepted the
  fetch, the record was pending and \<^verbatim>\<open>time.sleep\<close> raised it. \<open>elapsed_time\<close> is the elapsed
  time after the fetch.
\<close>

definition propagates ::
  "env \<Rightarrow> (pyval \<Rightarrow> real \<Rightarrow> pyval \<Rightarrow> exn + unit) option \<Rightarrow> int \<Rightarrow> real \<Rightarrow> exn + pyval \<Rightarrow> exn \<Rightarrow> bool"
where
  "propagates env callback polling_interval elapsed_time response e =
     (case response of
        Inl raised \<Rightarrow> e = raised
      | Inr record_details \<Rightarrow>
          (case py_get record_details ''status'' (PStr ''unknown'') of
             Inl raised \<Rightarrow> e = raised
           | Inr current_status \<Rightarrow>
               notified callback current_status elapsed_time record_details = Inl e \<or>
               (notified callback current_status elapsed_time record_details = Inr () \<and>
                current_status \<noteq> PStr ''complete'' \<and> current_status \<noteq> PStr ''error'' \<and>
                sleep_exn env polling_interval = Some e)))"

definition timeout_error :: "env \<Rightarrow> pyval \<Rightarrow> int \<Rightarrow> exn" where
  "timeout_error env record_id timeout =
     Exn TimeoutError (''Timeout exceeded for record '' @ py_str env record_id @ '' after '' @
                       py_str env (PInt timeout) @ '' seconds'')"

text \<open>
  How the loop ends, \<open>w\<close> being the state at its last test: with the elapsed time at or
  above the timeout there is no further fetch and a \<^verbatim>\<open>TimeoutError\<close>; with the elapsed time
  below it there is one more fetch, which ends the loop in one of three ways.
\<close>

definition completion_outcome ::
  "env \<Rightarrow> pyval \<Rightarrow> int \<Rightarrow> int \<Rightarrow> (pyval \<Rightarrow> real \<Rightarrow> pyval \<Rightarrow> exn + unit) option \<Rightarrow> real
     \<Rightarrow> world \<Rightarrow> event list \<Rightarrow> exn + pyval \<Rightarrow> bool"
where
  "completion_outcome env record_id timeout polling_interval callback start_time w final result =
     (clock w - start_time < real_of_int timeout \<and>
        ((\<exists>snapshot. final = [Called (GetRecordDetails record_id) (Inr snapshot)] \<and>
            py_get snapshot ''status'' (PStr ''unknown'') = Inr (PStr ''complete'') \<and>
            accepted env callback start_time w final \<and>
            result = Inr snapshot) \<or>
         (\<exists>record_details error_message.
            final = [Called (GetRecordDetails record_id) (Inr record_details)] \<and>
            py_get record_details ''status'' (PStr ''unknown'') = Inr (PStr ''error'') \<and>
            accepted env callback start_time w final \<and>
            py_get record_details ''error_message'' (PStr ''Unknown error'') = Inr error_message \<and>
            result = Inl (Exn NebuiaError (''Record processing failed: '' @ py_str env error_message))) \<or>
         (\<exists>response e.
            final = [Called (GetRecordDetails record_id) response] \<and>
            propagates env callback polling_interval
              (clock (after_events env w final) - start_time) response e \<and>
            result = Inl e)) \<or>
      real_of_int timeout \<le> clock w - start_time \<and> final = [] \<and>
        result = Inl (timeout_error env record_id timeout))"

definition completion_post ::
  "env \<Rightarrow> pyval \<Rightarrow> int \<Rightarrow> int \<Rightarrow> (pyval \<Rightarrow> real \<Rightarrow> pyval \<Rightarrow> exn + unit) option \<Rightarrow> real
     \<Rightarrow> world \<Rightarrow> (exn + pyval) \<times> world \<Rightarrow> bool"
where
  "completion_post env record_id timeout polling_interval callback start_time w y =
     (\<exists>polls final.
        snd y = after_events env w (concat polls @ final) \<and>
        list_all (pending_poll record_id polling_interval) polls \<and>
        begun_in_time env start_time timeout w polls \<and>
        all_accepted env callback start_time w polls \<and>
        completion_outcome env record_id timeout polling_interval callback start_time
          (after_events env w (concat polls)) final (fst y))"

definition pending_then_complete :: env where
  "pending_then_complete =
     scripted [record_status_is ''processing'', Inr PNone, record_status_is ''processing'', Inr PNone,
               record_status_is ''complete''] 0"

definition failing_fetch :: env where
  "failing_fetch = scripted [Inl (Exn NebuiaApiError ''Request failed: Internal Server Error'')] 0"

section \<open>Specification: the phases of process_documents\<close>

text \<open>The document-type verifications and the job creations among the events.\<close>

fun is_verification :: "event \<Rightarrow> bool" where
  "is_verification (Called (VerifyDocumentType record_id document_id) response) = True"
| "is_verification ev = False"

fun is_job_creation :: "event \<Rightarrow> bool" where
  "is_job_creation (Called (CreateProcessingJob record_id) response) = True"
| "is_job_creation ev = False"

definition quiet :: "event \<Rightarrow> bool" where
  "quiet ev = (\<not> is_verification ev \<and> \<not> is_job_creation ev)"

text \<open>What a phase adds to the trace: events that all satisfy a property.\<close>

definition adds :: "(event \<Rightarrow> bool) \<Rightarrow> world \<Rightarrow> world \<Rightarrow> bool" where
  "adds P w w' = (\<exists>evs. trace w' = trace w @ evs \<and> list_all P evs)"

text \<open>Example runs of the whole workflow.\<close>

definition uploaded_record :: pyval where
  "uploaded_record =
     PDict [(''id'', PStr ''rec-1''),
            (''documents'', PList [PDict [(''document_type'', PStr ''contract''),
                                         (''document_id'', PStr ''doc-1'')]])]"

definition full_run_service :: env where
  "full_run_service =
     scripted [Inr (PDict [(''id'', PStr ''rec-1'')]),
               Inr (PDict []),
               Inr uploaded_record,
               status_is ''complete'',
               Inr verified_answer,
               record_status_is ''waiting'',
               Inr (PDict [(''job_id'', PStr ''job-1'')]),
               record_status_is ''complete''] 0"

definition full_run_trace :: "event list" where
  "full_run_trace =
     [Called (CreateRecord ''dictamen'') (Inr (PDict [(''id'', PStr ''rec-1'')])),
      Called (UploadDocument (PStr ''rec-1'') ''contract.pdf'' ''contract'') (Inr (PDict [])),
      Called (GetRecordDetails (PStr ''rec-1'')) (Inr uploaded_record),
      Called (GetDocumentStatus (PStr ''doc-1'')) (status_is ''complete''),
      Called (VerifyDocumentType (PStr ''rec-1'') (PStr ''doc-1'')) (Inr verified_answer),
      Called (GetRecordDetails (PStr ''rec-1'')) (record_status_is ''waiting''),
      Called (CreateProcessingJob (PStr ''rec-1'')) (Inr (PDict [(''job_id'', PStr ''job-1'')])),
      Called (GetRecordDetails (PStr ''rec-1'')) (record_status_is ''complete'')]"

definition unreachable_service :: env where
  "unreachable_service = scripted [] 0"

definition never_embedded_service :: env where
  "never_embedded_service =
     scripted [Inr (PDict [(''id'', PStr ''rec-1'')]),
               Inr (PDict []),
               Inr uploaded_record,
               status_is ''pending'',
               Inr PNone,
               Inr uploaded_record] 0"

subsection \<open>The store of \<open>extract_document_entities\<close>\<close>

text \<open>
  The invariant of the loops: the objects of the store \<open>h0\<close> the function was called with are
  still there, unchanged; the object after them is the dictionary \<open>extracted_info\<close>, and
  its values refer to objects made after it.
\<close>

definition fresh_info :: "heap \<Rightarrow> heap \<Rightarrow> bool" where
  "fresh_info h0 h =
     (prefix h0 h \<and> length h0 < length h \<and>
      (\<exists>kvs. h ! length h0 = HDict kvs \<and> list_all (\<lambda>kv. \<exists>l. snd kv = HRef l \<and> length h0 < l) kvs))"

text \<open>
  A store holding a record with one invoice, whose entity has a structure with a
  \<open>name_to_show\<close> field: the structure is object 0, the entity object 1, the list of entities
  object 2, the document object 3, the list of documents object 4 and the record object 5.
\<close>

definition example_store :: heap where
  "example_store =
     [HDict [(HStr ''name_to_show'', HStr ''Total''), (HStr ''value'', HInt 100)],
      HDict [(HStr ''structure'', HRef 0)],
      HList [HRef 1],
      HDict [(HStr ''document_type'', HStr ''invoice''), (HStr ''entities'', HRef 2)],
      HList [HRef 3],
      HDict [(HStr ''documents'', HRef 4)]]"

text \<open>
  The objects the call adds to it: the result (object 6), the default list of
  \<^verbatim>\<open>document.get('entities', [])\<close> (object 7), the list of the invoices' structures (object 8)
  and the cleaned copy of the structure (object 9).
\<close>

definition example_extracted :: heap where
  "example_extracted =
     [HDict [(HStr ''invoice'', HRef 8)],
      HList [],
      HList [HRef 9],
      HDict [(HStr ''value'', HInt 100)]]"

section \<open>validate_documents: the result\<close>

lemma validate_loop_eq:
  "distinct (map fst valid @ map fst documents) \<Longrightarrow>
   validate_loop ex documents valid =
     (case first_error ex documents of
        Some e \<Rightarrow> Inl e
      | None \<Rightarrow>
          Inr (valid @ map (\<lambda>(k, p). (k, path_str (Path p)))
                         (filter (\<lambda>(k, p). is_valid_pdf ex p) documents)))"
proof (induction documents arbitrary: valid)
  case Nil
  then show ?case by simp
next
  case (Cons d ds)
  obtain k p where d: "d = (k, p)" by (cases d)
  show ?case
  proof (cases "ex (path_str (Path p))")
    case (Inl e)
    with d show ?thesis by (simp add: Let_def)
  next
    case (Inr found)
    show ?thesis
    proof (cases "is_valid_pdf ex p")
      case False
      have "distinct (map fst valid @ map fst ds)" using Cons.prems by auto
      note IH = Cons.IH[OF this]
      have step: "validate_loop ex (d # ds) valid = validate_loop ex ds valid"
        using False Inr d by (auto simp: is_valid_pdf_def Let_def)
      have err: "first_error ex (d # ds) = first_error ex ds"
        using Inr d by simp
      have keep: "filter (\<lambda>(k, p). is_valid_pdf ex p) (d # ds) = filter (\<lambda>(k, p). is_valid_pdf ex p) ds"
        using False d by simp
      show ?thesis unfolding step err keep by (rule IH)
    next
      case True
      have notin: "k \<notin> fst ` set valid" using Cons.prems d by auto
      have upd: "AList.update k v valid = valid @ [(k, v)]" for v
        using notin by (induction valid) auto
      have "distinct (map fst (valid @ [(k, path_str (Path p))]) @ map fst ds)"
        using Cons.prems d by auto
      note IH = Cons.IH[OF this]
      have step: "validate_loop ex (d # ds) valid = validate_loop ex ds (valid @ [(k, path_str (Path p))])"
        using True Inr d upd by (auto simp: is_valid_pdf_def Let_def)
      have err: "first_error ex (d # ds) = first_error ex ds"
        using Inr d by simp
      have keep: "filter (\<lambda>(k, p). is_valid_pdf ex p) (d # ds) = d # filter (\<lambda>(k, p). is_valid_pdf ex p) ds"
        using True d by simp
      show ?thesis unfolding step err keep IH using d by (simp split: option.splits)
    qed
  qed
qed

text \<open>
  Claim C7, as the code has it. For every mapping of document type to file path (a
  dictionary: its keys are distinct), \<open>validate_documents\<close> ends in one of two ways. When
  \<^verbatim>\<open>path.exists()\<close> raises for some entry (an \<^verbatim>\<open>OSError\<close> that pathlib lets through), the
  exception of the first such entry leaves the function and nothing is returned.
  Otherwise it returns, in the order of the input, one entry for each document type whose
  path exists on local storage and has the extension \<^verbatim>\<open>.pdf\<close> compared case-insensitively,
  and no other entry; an entry whose file is missing or is not a PDF is left out without
  an exception. The value of a kept entry is \<^verbatim>\<open>str(Path(file_path))\<close>, the normalised form of
  the path, not the input string.
\<close>

theorem validate_documents_result:
  "distinct (map fst documents) \<Longrightarrow>
   validate_documents on_disk documents =
     (case first_error on_disk documents of
        Some e \<Rightarrow> Inl e
      | None \<Rightarrow>
          Inr (map (\<lambda>(doc_type, file_path). (doc_type, path_str (Path file_path)))
                 (filter (\<lambda>(doc_type, file_path). is_valid_pdf on_disk file_path) documents)))"
  using validate_loop_eq[of "[]" documents on_disk]
  by (simp add: validate_documents_def split: option.splits)

theorem validate_documents_result_witness:
  "distinct (map fst [(''contract'', ''docs/Contract.PDF''), (''notes'', ''notes.txt''), (''deed'', ''missing.pdf'')]) \<and>
   validate_documents (storage_without ''missing.pdf'')
       [(''contract'', ''docs/Contract.PDF''), (''notes'', ''notes.txt''), (''deed'', ''missing.pdf'')] =
     Inr [(''contract'', ''docs/Contract.PDF'')] \<and>
   validate_documents (storage_locked ''vault/deed.pdf'')
       [(''contract'', ''docs/Contract.PDF''), (''deed'', ''vault/deed.pdf''), (''notes'', ''notes.txt'')] =
     Inl (Exn OSError ''[Errno 13] Permission denied'')"
proof -
  have kept: "is_valid_pdf (storage_without ''missing.pdf'') ''docs/Contract.PDF''"
    by code_simp
  have no_pdf: "\<not> is_valid_pdf (storage_without ''missing.pdf'') ''notes.txt''"
    by code_simp
  have missing: "\<not> is_valid_pdf (storage_without ''missing.pdf'') ''missing.pdf''"
    by code_simp
  have str: "path_str (Path ''docs/Contract.PDF'') = ''docs/Contract.PDF''"
    by code_simp
  have no_error: "first_error (storage_without ''missing.pdf'')
      [(''contract'', ''docs/Contract.PDF''), (''notes'', ''notes.txt''), (''deed'', ''missing.pdf'')] = None"
    by code_simp
  have locked: "first_error (storage_locked ''vault/deed.pdf'')
      [(''contract'', ''docs/Contract.PDF''), (''deed'', ''vault/deed.pdf''), (''notes'', ''notes.txt'')] =
      Some (Exn OSError ''[Errno 13] Permission denied'')"
    by code_simp
  have keys: "distinct (map fst [(''contract'', ''docs/Contract.PDF''), (''notes'', ''notes.txt''), (''deed'', ''missing.pdf'')])"
    by simp
  have keys': "distinct (map fst [(''contract'', ''docs/Contract.PDF''), (''deed'', ''vault/deed.pdf''), (''notes'', ''notes.txt'')])"
    by simp
  from validate_documents_result[OF keys, of "storage_without ''missing.pdf''"]
    validate_documents_result[OF keys', of "storage_locked ''vault/deed.pdf''"]
    kept no_pdf missing str no_error locked keys
  show ?thesis by simp
qed

text \<open>
  The claim as stated fails: the entry \<^verbatim>\<open>contract: ./a.pdf\<close> exists and is a PDF, but the
  result holds \<^verbatim>\<open>contract: a.pdf\<close> instead of it.
\<close>

theorem validate_documents_entry_counterexample:
  "validate_documents all_files [(''contract'', ''./a.pdf'')] = Inr [(''contract'', ''a.pdf'')] \<and>
   is_valid_pdf all_files ''./a.pdf'' \<and>
   (''contract'', ''./a.pdf'') \<notin> set [(''contract'', ''a.pdf'')]"
  by (simp add: validate_documents_def is_valid_pdf_def Path_def path_str_def splitroot_def
      path_suffix_def path_name_def str_lower_def lower_char_def all_files_def)

section \<open>extract_document_entities: the result on a Record payload\<close>

lemma map_of_fst_image: "(k \<in> fst ` set kvs) = (map_of kvs k \<noteq> None)"
  by (simp add: map_of_eq_None_iff)

lemma delete_absent: "k \<notin> fst ` set kvs \<Longrightarrow> AList.delete k kvs = kvs"
  by (induction kvs) auto

lemma clean_entity_wf:
  assumes "wf_entity entity"
  shows "clean_entity entity = Inr (case stripped_structure entity of [] \<Rightarrow> None | s # _ \<Rightarrow> Some s)"
proof -
  from assms obtain kvs where e: "entity = PDict kvs"
    by (cases entity) (auto simp: wf_entity_def)
  show ?thesis
  proof (cases "map_of kvs ''structure''")
    case None
    then have "''structure'' \<notin> fst ` set kvs" by (simp add: map_of_fst_image)
    with None e show ?thesis by (simp add: clean_entity_def stripped_structure_def)
  next
    case (Some s)
    with assms e obtain items where s: "s = PDict items"
      by (cases s) (auto simp: wf_entity_def)
    from Some have "''structure'' \<in> fst ` set kvs" by (simp add: map_of_fst_image)
    with Some e s show ?thesis
      by (simp add: clean_entity_def stripped_structure_def delete_absent)
  qed
qed

lemma stripped_structure_cases:
  "stripped_structure entity = [] \<or> (\<exists>s. stripped_structure entity = [s])"
  by (auto simp: stripped_structure_def split: pyval.splits option.splits)

lemma entities_loop_wf:
  "list_all wf_entity es \<Longrightarrow>
   entities_loop es cleaned = Inr (cleaned @ concat (map stripped_structure es))"
proof (induction es arbitrary: cleaned)
  case Nil
  then show ?case by simp
next
  case (Cons entity es)
  then have wf: "wf_entity entity" and rest: "list_all wf_entity es" by simp_all
  from stripped_structure_cases[of entity] show ?case
  proof
    assume "stripped_structure entity = []"
    with Cons.IH[OF rest] wf show ?thesis by (simp add: clean_entity_wf)
  next
    assume "\<exists>s. stripped_structure entity = [s]"
    then obtain s where "stripped_structure entity = [s]" ..
    with Cons.IH[OF rest] wf show ?thesis by (simp add: clean_entity_wf)
  qed
qed

lemma info_lookup_str:
  "list_all is_str (map fst info) \<Longrightarrow> is_str t \<Longrightarrow> info_lookup info t = map_of info t"
proof (induction info)
  case Nil
  then show ?case by simp
next
  case (Cons kv info)
  obtain k v where kv: "kv = (k, v)" by (cases kv)
  with Cons.prems obtain a b where "k = PStr a" "t = PStr b"
    by (cases k; cases t) auto
  with Cons kv show ?case by auto
qed

lemma info_update_str:
  "list_all is_str (map fst info) \<Longrightarrow> is_str t \<Longrightarrow> info_update t v info = AList.update t v info"
proof (induction info)
  case Nil
  then show ?case by simp
next
  case (Cons kv info)
  obtain k v' where kv: "kv = (k, v')" by (cases kv)
  with Cons.prems obtain a b where "k = PStr a" "t = PStr b"
    by (cases k; cases t) auto
  with Cons kv show ?case by auto
qed

lemma wf_document_type: "wf_document d \<Longrightarrow> is_str (document_type_of d)"
  by (auto simp: wf_document_def document_type_of_def split: pyval.splits option.splits)

lemma wf_document_entities: "wf_document d \<Longrightarrow> list_all wf_entity (entities_of d)"
  by (auto simp: wf_document_def entities_of_def split: pyval.splits option.splits)

lemma wf_document_get:
  assumes "wf_document d"
  shows "py_get d ''document_type'' (PStr ''unknown'') = Inr (document_type_of d)"
    and "py_get d ''entities'' (PList []) = Inr (PList (entities_of d))"
  using assms
  by (auto simp: wf_document_def document_type_of_def entities_of_def split: pyval.splits option.splits)

lemma is_str_hashable: "is_str t \<Longrightarrow> hashable t"
  by (cases t) auto

lemma update_update_same: "AList.update k v (AList.update k v' al) = AList.update k v al"
  by (induction al) auto

lemma documents_loop_wf:
  "list_all wf_document ds \<Longrightarrow> list_all is_str (map fst info) \<Longrightarrow>
   documents_loop ds info = Inr (fold add_document ds info)"
proof (induction ds arbitrary: info)
  case Nil
  then show ?case by simp
next
  case (Cons d ds)
  then have wf: "wf_document d" and rest: "list_all wf_document ds" by simp_all
  let ?t = "document_type_of d"
  have t: "is_str ?t" using wf by (rule wf_document_type)
  have keys: "list_all is_str (map fst (add_document d info))"
    using Cons.prems(2) t by (auto simp: add_document_def list_all_iff AList.dom_update)
  have es: "py_get d ''entities'' (PList []) = Inr (PList (entities_of d))"
    using wf_document_get(2)[OF wf] .
  have step: "documents_loop (d # ds) info = documents_loop ds (add_document d info)"
  proof (cases "map_of info ?t")
    case None
    have k2: "list_all is_str (map fst (AList.update ?t [] info))"
      using Cons.prems(2) t by (auto simp: list_all_iff AList.dom_update)
    show ?thesis
      using None t wf es Cons.prems(2) k2 wf_document_entities[OF wf]
      by (simp add: wf_document_get(1) is_str_hashable info_lookup_str info_update_str
          entities_loop_wf add_document_def structures_of_def AList.update_conv' update_update_same)
  next
    case (Some cleaned)
    show ?thesis
      using Some t wf es Cons.prems(2) wf_document_entities[OF wf]
      by (simp add: wf_document_get(1) is_str_hashable info_lookup_str info_update_str
          entities_loop_wf add_document_def structures_of_def)
  qed
  show ?case using Cons.IH[OF rest keys] step by simp
qed

lemma map_of_add_document:
  "map_of (add_document d info) t =
     (if t = document_type_of d
      then Some ((case map_of info t of Some cleaned \<Rightarrow> cleaned | None \<Rightarrow> []) @ structures_of d)
      else map_of info t)"
  by (simp add: add_document_def AList.update_conv')

lemma map_of_fold_add_document:
  "map_of (fold add_document ds info) t =
     (if t \<in> document_type_of ` set ds \<or> map_of info t \<noteq> None
      then Some ((case map_of info t of Some cleaned \<Rightarrow> cleaned | None \<Rightarrow> []) @
                 concat (map structures_of (filter (\<lambda>d. document_type_of d = t) ds)))
      else None)"
proof (induction ds arbitrary: info)
  case Nil
  then show ?case by (auto split: option.splits)
next
  case (Cons d ds)
  show ?case
    by (simp add: Cons.IH map_of_add_document split: option.splits)
qed

lemma distinct_fold_add_document:
  "distinct (map fst info) \<Longrightarrow> distinct (map fst (fold add_document ds info))"
  by (induction ds arbitrary: info) (simp_all add: add_document_def AList.distinct_update)

lemma fold_add_document_fresh:
  "distinct (map document_type_of ds) \<Longrightarrow> fst ` set info \<inter> document_type_of ` set ds = {} \<Longrightarrow>
   fold add_document ds info = info @ map (\<lambda>d. (document_type_of d, structures_of d)) ds"
proof (induction ds arbitrary: info)
  case Nil
  then show ?case by simp
next
  case (Cons d ds)
  have notin: "document_type_of d \<notin> fst ` set info" using Cons.prems(2) by auto
  then have none: "map_of info (document_type_of d) = None" by (simp add: map_of_eq_None_iff)
  have upd: "AList.update (document_type_of d) v info = info @ [(document_type_of d, v)]" for v
    using notin by (induction info) auto
  have "fst ` set (add_document d info) \<inter> document_type_of ` set ds = {}"
    using Cons.prems by (auto simp: add_document_def none upd)
  with Cons.IH[of "add_document d info"] Cons.prems(1) show ?case
    by (simp add: add_document_def none upd)
qed

lemma wf_record_extract:
  assumes "wf_record r"
  shows "extract_document_entities r = Inr (fold add_document (documents_of r) [])"
proof -
  from assms obtain kvs where r: "r = PDict kvs"
    by (cases r) (auto simp: wf_record_def)
  show ?thesis
  proof (cases "map_of kvs ''documents''")
    case None
    then have "''documents'' \<notin> fst ` set kvs" by (simp add: map_of_fst_image)
    with None r show ?thesis by (simp add: extract_document_entities_def documents_of_def)
  next
    case (Some v)
    with assms r obtain ds where v: "v = PList ds" and wf: "list_all wf_document ds"
      by (cases v) (auto simp: wf_record_def)
    from Some have "''documents'' \<in> fst ` set kvs" by (simp add: map_of_fst_image)
    moreover from this have "kvs \<noteq> []" by auto
    ultimately show ?thesis
      using Some r v documents_loop_wf[OF wf, of "[]"]
      by (simp add: extract_document_entities_def documents_of_def)
  qed
qed

text \<open>
  Claim C8. For every Record payload, \<open>extract_document_entities\<close> returns without raising
  a mapping with distinct keys that sends each document's type (\<^verbatim>\<open>unknown\<close> when the
  document names none) to the structures of its entities, each without its
  \<^verbatim>\<open>name_to_show\<close> field, and has no other key; documents that share a type share one list,
  in document order. When the types are unique, as the data model says, the result is
  exactly one entry per document, in order: its type with the list of its own entities'
  structures (the empty list for a document without entities). A falsy payload, or a
  dictionary without a \<^verbatim>\<open>documents\<close> key, gives the empty mapping without raising.
\<close>

theorem extract_document_entities_correct:
  "(wf_record r \<longrightarrow>
      (\<exists>info. extract_document_entities r = Inr info \<and> distinct (map fst info) \<and>
         (\<forall>t. map_of info t =
            (if t \<in> document_type_of ` set (documents_of r)
             then Some (concat (map structures_of
                    (filter (\<lambda>d. document_type_of d = t) (documents_of r))))
             else None)) \<and>
         (distinct (map document_type_of (documents_of r)) \<longrightarrow>
            info = map (\<lambda>d. (document_type_of d, structures_of d)) (documents_of r)))) \<and>
   (\<not> truthy r \<or> (\<exists>kvs. r = PDict kvs \<and> ''documents'' \<notin> fst ` set kvs) \<longrightarrow>
      extract_document_entities r = Inr [])"
proof (intro conjI impI)
  assume wf: "wf_record r"
  let ?info = "fold add_document (documents_of r) []"
  have "extract_document_entities r = Inr ?info" using wf by (rule wf_record_extract)
  moreover have "distinct (map fst ?info)" by (rule distinct_fold_add_document) simp
  moreover have "\<forall>t. map_of ?info t =
            (if t \<in> document_type_of ` set (documents_of r)
             then Some (concat (map structures_of
                    (filter (\<lambda>d. document_type_of d = t) (documents_of r))))
             else None)"
    by (simp add: map_of_fold_add_document)
  moreover have "distinct (map document_type_of (documents_of r)) \<longrightarrow>
            ?info = map (\<lambda>d. (document_type_of d, structures_of d)) (documents_of r)"
    using fold_add_document_fresh[of "documents_of r" "[]"] by simp
  ultimately show "\<exists>info. extract_document_entities r = Inr info \<and> distinct (map fst info) \<and>
         (\<forall>t. map_of info t =
            (if t \<in> document_type_of ` set (documents_of r)
             then Some (concat (map structures_of
                    (filter (\<lambda>d. document_type_of d = t) (documents_of r))))
             else None)) \<and>
         (distinct (map document_type_of (documents_of r)) \<longrightarrow>
            info = map (\<lambda>d. (document_type_of d, structures_of d)) (documents_of r))"
    by blast
next
  assume "\<not> truthy r \<or> (\<exists>kvs. r = PDict kvs \<and> ''documents'' \<notin> fst ` set kvs)"
  then show "extract_document_entities r = Inr []"
    by (auto simp: extract_document_entities_def)
qed

theorem extract_document_entities_witness:
  "wf_record example_record \<and>
   extract_document_entities example_record =
     Inr [(PStr ''invoice'', [PDict [(''value'', PInt 1)]]), (PStr ''receipt'', [])] \<and>
   \<not> truthy PNone \<and> extract_document_entities PNone = Inr []"
proof -
  have wf: "wf_record example_record"
    by (simp add: example_record_def wf_record_def wf_document_def wf_entity_def)
  have docs: "documents_of example_record =
      [PDict [(''document_id'', PStr ''d1''), (''document_type'', PStr ''invoice''),
                       (''entities'', PList
                          [PDict [(''structure'', PDict [(''name_to_show'', PStr ''X''), (''value'', PInt 1)])],
                           PDict [(''key'', PStr ''no structure'')]])],
                PDict [(''document_id'', PStr ''d2''), (''document_type'', PStr ''receipt'')]]"
    by (simp add: example_record_def documents_of_def)
  from extract_document_entities_correct[of example_record] wf
  obtain info where info: "extract_document_entities example_record = Inr info"
    and eq: "distinct (map document_type_of (documents_of example_record)) \<longrightarrow>
            info = map (\<lambda>d. (document_type_of d, structures_of d)) (documents_of example_record)"
    by blast
  have "info = [(PStr ''invoice'', [PDict [(''value'', PInt 1)]]), (PStr ''receipt'', [])]"
    using eq unfolding docs
    by (simp add: document_type_of_def structures_of_def entities_of_def stripped_structure_def AList.delete_eq)
  moreover have "extract_document_entities PNone = Inr []"
    using extract_document_entities_correct[of PNone] by simp
  ultimately show ?thesis using wf info by simp
qed

section \<open>verify_all_documents: documents without an id\<close>

lemma has_id_pair: "has_id (t, i) = truthy i"
  by (simp add: has_id_def)

lemma verify_document_type_effect:
  "\<exists>verification.
     verify_document_type env record_id document_id w =
       (Inr (verification_passes (respond env (length (trace w)) (VerifyDocumentType record_id document_id)),
             verification),
        \<lparr>clock = clock w + delay env (length (trace w)),
         trace = trace w @ [Called (VerifyDocumentType record_id document_id)
                              (respond env (length (trace w)) (VerifyDocumentType record_id document_id))]\<rparr>)"
  by (auto simp: verify_document_type_def perform_def Let_def verification_passes_def
      split: sum.splits)

lemma verify_loop_skip:
  "verify_loop env record_id (filter has_id document_ids) results passed w =
   verify_loop env record_id document_ids results passed w"
proof (induction document_ids arbitrary: results passed w)
  case Nil
  then show ?case by simp
next
  case (Cons entry document_ids)
  obtain t i where entry: "entry = (t, i)" by (cases entry)
  show ?case
  proof (cases "truthy i")
    case True
    with entry Cons.IH show ?thesis
      by (simp add: has_id_pair split: prod.splits sum.splits)
  next
    case False
    with entry Cons.IH show ?thesis by (simp add: has_id_pair)
  qed
qed

lemma update_fresh: "k \<notin> fst ` set al \<Longrightarrow> AList.update k v al = al @ [(k, v)]"
  by (induction al) auto

lemma verify_loop_effect:
  "distinct (map fst results @ map fst document_ids) \<Longrightarrow>
   verify_loop env record_id document_ids results passed w = ((results', passed'), w') \<Longrightarrow>
   \<exists>evs. trace w' = trace w @ evs \<and>
         map event_call evs =
           map (\<lambda>entry. Some (VerifyDocumentType record_id (snd entry))) (filter has_id document_ids) \<and>
         passed' = (passed \<and> list_all passed_verification evs) \<and>
         map fst results' = map fst results @ map fst (filter has_id document_ids)"
proof (induction document_ids arbitrary: results passed w)
  case Nil
  then show ?case by simp
next
  case (Cons entry document_ids)
  obtain t i where entry: "entry = (t, i)" by (cases entry)
  show ?case
  proof (cases "truthy i")
    case False
    from Cons.prems entry have d: "distinct (map fst results @ map fst document_ids)" by simp
    from Cons.prems(2) entry False
    have "verify_loop env record_id document_ids results passed w = ((results', passed'), w')"
      by simp
    from Cons.IH[OF d this] entry False show ?thesis by (simp add: has_id_pair)
  next
    case True
    let ?k = "length (trace w)"
    let ?c = "VerifyDocumentType record_id i"
    let ?r = "respond env ?k ?c"
    let ?w1 = "\<lparr>clock = clock w + delay env ?k, trace = trace w @ [Called ?c ?r]\<rparr>"
    obtain verification where v:
      "verify_document_type env record_id i w = (Inr (verification_passes ?r, verification), ?w1)"
      using verify_document_type_effect[of env record_id i w] by blast
    have fresh: "t \<notin> fst ` set results" using Cons.prems(1) entry by auto
    let ?results1 = "results @ [(t, verification)]"
    have d: "distinct (map fst ?results1 @ map fst document_ids)"
      using Cons.prems(1) entry by auto
    from Cons.prems(2) entry True v fresh
    have run: "verify_loop env record_id document_ids ?results1
                (if \<not> verification_passes ?r then False else passed) ?w1 = ((results', passed'), w')"
      by (simp add: update_fresh)
    from Cons.IH[OF d run] obtain evs where evs:
      "trace w' = trace ?w1 @ evs"
      "map event_call evs =
         map (\<lambda>entry. Some (VerifyDocumentType record_id (snd entry))) (filter has_id document_ids)"
      "passed' = ((if \<not> verification_passes ?r then False else passed) \<and> list_all passed_verification evs)"
      "map fst results' = map fst ?results1 @ map fst (filter has_id document_ids)"
      by blast
    show ?thesis
      apply (rule exI[of _ "Called ?c ?r # evs"])
      using evs entry True by (auto simp: has_id_pair)
  qed
qed

text \<open>
  Claim C9. For every record id and every \<open>document_ids\<close> mapping, \<open>verify_all_documents\<close>
  behaves exactly as on the mapping without the entries whose id is falsy: such an entry
  adds no verification call, no entry of \<open>verification_results\<close> and does not touch the
  pass flag. The results are keyed by the types with a truthy id, one call is made for each
  of them, and the flag is true iff all of those calls passed; so the overall verification
  passes even when a type with a falsy id was never verified.
\<close>

theorem verify_all_documents_skips_falsy_ids:
  "distinct (map fst document_ids) \<Longrightarrow>
   verify_all_documents env record_id document_ids w =
     ((verification_results, verification_passed), w') \<Longrightarrow>
   verify_all_documents env record_id (filter has_id document_ids) w =
     ((verification_results, verification_passed), w') \<and>
   map fst verification_results = map fst (filter has_id document_ids) \<and>
   (\<exists>evs. trace w' = trace w @ evs \<and>
      map event_call evs =
        map (\<lambda>entry. Some (VerifyDocumentType record_id (snd entry))) (filter has_id document_ids) \<and>
      verification_passed = list_all passed_verification evs)"
  using verify_loop_effect[of "[]" document_ids env record_id True w verification_results
      verification_passed w']
    verify_loop_skip[of env record_id document_ids "[]" True w]
  unfolding verify_all_documents_def by auto

lemma verify_example_run:
  "verify_all_documents (scripted [Inr verified_answer] 0) (PStr ''rec-1'')
      [(''contract'', PStr ''doc-1''), (''deed'', PNone)] start =
     (([(''contract'', verified_answer)], True),
      \<lparr>clock = 0,
       trace = [Called (VerifyDocumentType (PStr ''rec-1'') (PStr ''doc-1'')) (Inr verified_answer)]\<rparr>)"
  by (simp add: verify_all_documents_def verify_document_type_def perform_def scripted_def start_def
      verified_answer_def display_verification_points_def Let_def)

theorem verify_all_documents_skips_falsy_ids_witness:
  "distinct (map fst [(''contract'', PStr ''doc-1''), (''deed'', PNone)]) \<and>
   verify_all_documents (scripted [Inr verified_answer] 0) (PStr ''rec-1'')
      [(''contract'', PStr ''doc-1''), (''deed'', PNone)] start =
     (([(''contract'', verified_answer)], True),
      \<lparr>clock = 0,
       trace = [Called (VerifyDocumentType (PStr ''rec-1'') (PStr ''doc-1'')) (Inr verified_answer)]\<rparr>) \<and>
   filter has_id [(''contract'', PStr ''doc-1''), (''deed'', PNone)] = [(''contract'', PStr ''doc-1'')] \<and>
   map fst [(''contract'', verified_answer)] =
     map fst (filter has_id [(''contract'', PStr ''doc-1''), (''deed'', PNone)])"
proof -
  have keys: "distinct (map fst [(''contract'', PStr ''doc-1''), (''deed'', PNone)])" by simp
  have ids: "filter has_id [(''contract'', PStr ''doc-1''), (''deed'', PNone)] = [(''contract'', PStr ''doc-1'')]"
    by (simp add: has_id_def)
  from verify_all_documents_skips_falsy_ids[OF keys verify_example_run] keys ids verify_example_run
  show ?thesis by simp
qed

text \<open>
  Such an id is produced by \<open>create_and_upload\<close> when the record's document of that type
  has no \<^verbatim>\<open>document_id\<close>: \<^verbatim>\<open>document.get("document_id")\<close> is \<^verbatim>\<open>None\<close>.
\<close>

lemma create_and_upload_none_id:
  "fst (create_and_upload
      (scripted [Inr (PDict [(''id'', PStr ''rec-1'')]), Inr (PDict []), Inr record_without_document_id] 0)
      [(''deed'', ''deed.pdf'')] ''cfg'' start) =
   Inr (Some (PStr ''rec-1'', [(''deed'', PNone)]))"
  by (simp add: create_and_upload_def perform_def scripted_def start_def record_without_document_id_def Let_def)

section \<open>_wait_for_embedding: the rounds of a run\<close>

lemma perform_effect:
  "perform env c w =
     (respond env (length (trace w)) c,
      \<lparr>clock = clock w + delay env (length (trace w)),
       trace = trace w @ [Called c (respond env (length (trace w)) c)]\<rparr>)"
  by (simp add: perform_def Let_def)

lemma after_events_append:
  "after_events env w (xs @ ys) = after_events env (after_events env w xs) ys"
  by (induction xs arbitrary: w) simp_all

lemma trace_after_events: "trace (after_events env w evs) = trace w @ evs"
  by (induction evs arbitrary: w) simp_all

lemma polled_Cons:
  "polled interval (r # rounds) = (r @ [Slept interval]) @ polled interval rounds"
  by (simp add: polled_def with_sleep_def)

lemma polled_Nil: "polled interval [] = []"
  by (simp add: polled_def with_sleep_def)

lemma with_sleep_Cons:
  "with_sleep interval (r # rounds) = (r @ [Slept interval]) # with_sleep interval rounds"
  by (simp add: with_sleep_def)

lemma with_sleep_Nil: "with_sleep interval [] = []"
  by (simp add: with_sleep_def)

lemma check_documents_effect:
  "check_documents env document_ids pending w = (pending', w') \<Longrightarrow>
   \<exists>evs. w' = after_events env w evs \<and> status_round document_ids evs \<and>
         (pending' = [] \<longleftrightarrow> pending = [] \<and> list_all reports_complete evs) \<and>
         (steady env \<longrightarrow> clock w \<le> clock w')"
proof (induction document_ids arbitrary: pending w)
  case Nil
  then show ?case by (simp add: status_round_def)
next
  case (Cons entry document_ids)
  obtain t i where entry: "entry = (t, i)" by (cases entry)
  let ?c = "GetDocumentStatus i"
  let ?r = "respond env (length (trace w)) ?c"
  let ?ev = "Called ?c ?r"
  let ?w1 = "\<lparr>clock = clock w + delay env (length (trace w)), trace = trace w @ [?ev]\<rparr>"
  let ?pending1 = "if reports_complete ?ev then pending
                   else pending @ [(t, i, case ?r of Inl e \<Rightarrow> PStr ''error''
                                        | Inr d \<Rightarrow> (case py_get d ''status'' PNone of
                                                      Inl e \<Rightarrow> PStr ''error'' | Inr s \<Rightarrow> s))]"
  have step: "check_documents env (entry # document_ids) pending w =
              check_documents env document_ids ?pending1 ?w1"
    unfolding entry by (auto simp: perform_effect split: sum.splits)
  with Cons.prems have "check_documents env document_ids ?pending1 ?w1 = (pending', w')" by simp
  from Cons.IH[OF this] obtain evs where evs:
    "w' = after_events env ?w1 evs" "status_round document_ids evs"
    "pending' = [] \<longleftrightarrow> ?pending1 = [] \<and> list_all reports_complete evs"
    "steady env \<longrightarrow> clock ?w1 \<le> clock w'"
    by blast
  have "steady env \<longrightarrow> clock w \<le> clock ?w1" by (simp add: steady_def)
  with evs(4) have mono: "steady env \<longrightarrow> clock w \<le> clock w'" by auto
  have w': "w' = after_events env w (?ev # evs)" using evs(1) by simp
  show ?case
    apply (rule exI[of _ "?ev # evs"])
    using w' evs(2,3) mono entry by (auto simp: status_round_def)
qed

lemma sleep_effect:
  "sleep env secs w = (r, w') \<Longrightarrow>
   (\<exists>e. sleep_exn env secs = Some e \<and> r = Inl e \<and> w' = w) \<or>
   (sleep_exn env secs = None \<and> r = Inr () \<and> w' = after_events env w [Slept secs])"
  by (auto simp: sleep_def split: option.splits)

lemma sleep_ok:
  "sleep_exn env secs = None \<Longrightarrow>
   sleep env secs w =
     (Inr (), \<lparr>clock = clock w + real_of_int secs + delay env (length (trace w)),
               trace = trace w @ [Slept secs]\<rparr>)"
  by (simp add: sleep_def)

lemma sleep_raises: "sleep_exn env secs = Some e \<Longrightarrow> sleep env secs w = (Inl e, w)"
  by (simp add: sleep_def)

lemma sleep_exn_None: "sleep_exn env secs = None \<Longrightarrow> 0 \<le> secs"
  by (auto simp: sleep_exn_def split: option.splits if_splits)

lemma embedding_postI:
  "w' = after_events env w (polled check_interval rounds @ final) \<Longrightarrow>
   list_all (incomplete_round document_ids) rounds \<Longrightarrow>
   begun_in_time env start_time timeout w (with_sleep check_interval rounds) \<Longrightarrow>
   (result = Inr True \<and>
      clock (after_events env w (polled check_interval rounds)) - start_time < real_of_int timeout \<and>
      status_round document_ids final \<and> list_all reports_complete final \<or>
    result = Inr False \<and> final = [] \<and> real_of_int timeout \<le> clock w' - start_time \<or>
    (\<exists>e. result = Inl e \<and> sleep_exn env check_interval = Some e \<and> rounds = [] \<and>
         clock w - start_time < real_of_int timeout \<and> incomplete_round document_ids final)) \<Longrightarrow>
   embedding_post env document_ids check_interval timeout start_time w (result, w')"
  unfolding embedding_post_def by (intro exI[of _ rounds] exI[of _ final]) simp

lemma embedding_loop_trace:
  assumes run: "embedding_loop env document_ids check_interval timeout start_time w = Some y"
  shows "embedding_post env document_ids check_interval timeout start_time w y"
proof (rule embedding_loop.raw_induct[where P = "\<lambda>env document_ids check_interval timeout start_time w y.
      embedding_post env document_ids check_interval timeout start_time w y", OF _ run])
  fix loop env document_ids check_interval timeout start_time w y
  assume IH: "\<And>(env :: env) document_ids check_interval timeout start_time w y.
      loop env document_ids check_interval timeout start_time w = Some y \<Longrightarrow>
      embedding_post env document_ids check_interval timeout start_time w y"
  assume body: "(if clock w - start_time < real_of_int timeout
    then (case check_documents env document_ids [] w of
         (pending_documents, w1) \<Rightarrow>
           if pending_documents = [] then Some (Inr True, w1)
           else (case sleep env check_interval w1 of
                (Inl e, w2) \<Rightarrow> Some (Inl e, w2)
                | (Inr u, w2) \<Rightarrow> loop env document_ids check_interval timeout start_time w2))
    else Some (Inr False, w)) = Some y"
  show "embedding_post env document_ids check_interval timeout start_time w y"
  proof (cases "clock w - start_time < real_of_int timeout")
    case False
    with body have y: "y = (Inr False, w)" by simp
    show ?thesis unfolding y
      by (rule embedding_postI[of _ _ _ _ "[]" "[]"])
        (use False in \<open>simp_all add: polled_Nil with_sleep_Nil\<close>)
  next
    case guard: True
    obtain pending w1 where chk: "check_documents env document_ids [] w = (pending, w1)"
      by (cases "check_documents env document_ids [] w")
    from check_documents_effect[OF chk] obtain evs where evs:
      "w1 = after_events env w evs" "status_round document_ids evs"
      "pending = [] \<longleftrightarrow> list_all reports_complete evs"
      by auto
    show ?thesis
    proof (cases "pending = []")
      case True
      with body guard chk have y: "y = (Inr True, w1)" by simp
      show ?thesis unfolding y
        by (rule embedding_postI[of _ _ _ _ "[]" evs])
          (use evs True guard in \<open>simp_all add: polled_Nil with_sleep_Nil\<close>)
    next
      case False
      then have inc: "incomplete_round document_ids evs"
        using evs by (simp add: incomplete_round_def)
      obtain r w2 where sl: "sleep env check_interval w1 = (r, w2)"
        by (cases "sleep env check_interval w1")
      from sleep_effect[OF sl] show ?thesis
      proof
        assume "\<exists>e. sleep_exn env check_interval = Some e \<and> r = Inl e \<and> w2 = w1"
        then obtain e where raised: "sleep_exn env check_interval = Some e" "r = Inl e" "w2 = w1"
          by blast
        with body guard chk False sl have y: "y = (Inl e, w1)" by simp
        show ?thesis unfolding y
          by (rule embedding_postI[of _ _ _ _ "[]" evs])
            (use evs inc raised guard in \<open>simp_all add: polled_Nil with_sleep_Nil\<close>)
      next
        assume ok: "sleep_exn env check_interval = None \<and> r = Inr () \<and>
          w2 = after_events env w1 [Slept check_interval]"
        with body guard chk False sl
        have "loop env document_ids check_interval timeout start_time w2 = Some y"
          by simp
        from IH[OF this] obtain rounds final where rec:
          "snd y = after_events env w2 (polled check_interval rounds @ final)"
          "list_all (incomplete_round document_ids) rounds"
          "begun_in_time env start_time timeout w2 (with_sleep check_interval rounds)"
          "fst y = Inr True \<and>
             clock (after_events env w2 (polled check_interval rounds)) - start_time < real_of_int timeout \<and>
             status_round document_ids final \<and> list_all reports_complete final \<or>
           fst y = Inr False \<and> final = [] \<and> real_of_int timeout \<le> clock (snd y) - start_time"
          unfolding embedding_post_def using ok by auto
        have w2: "w2 = after_events env w (evs @ [Slept check_interval])"
          using ok evs(1) by (simp add: after_events_append)
        have "embedding_post env document_ids check_interval timeout start_time w (fst y, snd y)"
        proof (rule embedding_postI[of _ _ _ _ "evs # rounds" final])
          show "snd y = after_events env w (polled check_interval (evs # rounds) @ final)"
            using rec(1) w2 by (simp only: polled_Cons append_assoc after_events_append)
          show "list_all (incomplete_round document_ids) (evs # rounds)"
            using rec(2) inc by simp
          show "begun_in_time env start_time timeout w (with_sleep check_interval (evs # rounds))"
            using rec(3) guard w2 by (simp add: with_sleep_Cons)
          have "after_events env w (polled check_interval (evs # rounds)) =
                after_events env w2 (polled check_interval rounds)"
            using w2 by (simp only: polled_Cons after_events_append)
          with rec(4)
          show "fst y = Inr True \<and>
             clock (after_events env w (polled check_interval (evs # rounds))) - start_time < real_of_int timeout \<and>
             status_round document_ids final \<and> list_all reports_complete final \<or>
           fst y = Inr False \<and> final = [] \<and> real_of_int timeout \<le> clock (snd y) - start_time \<or>
           (\<exists>e. fst y = Inl e \<and> sleep_exn env check_interval = Some e \<and> evs # rounds = [] \<and>
              clock w - start_time < real_of_int timeout \<and> incomplete_round document_ids final)"
            by simp
        qed
        then show ?thesis by simp
      qed
    qed
  qed
qed

lemma embedding_loop_terminates_aux:
  assumes "steady env" and "0 < check_interval" and "sleep_exn env check_interval = None"
  shows "real_of_int timeout - (clock w - start_time) \<le> real k * real_of_int check_interval \<Longrightarrow>
         \<exists>y. embedding_loop env document_ids check_interval timeout start_time w = Some y"
proof (induction k arbitrary: w)
  case 0
  then have "\<not> clock w - start_time < real_of_int timeout" by simp
  then show ?case by (subst embedding_loop.simps) simp
next
  case (Suc k)
  show ?case
  proof (cases "clock w - start_time < real_of_int timeout")
    case False
    then show ?thesis by (subst embedding_loop.simps) simp
  next
    case True
    obtain pending w1 where chk: "check_documents env document_ids [] w = (pending, w1)"
      by (cases "check_documents env document_ids [] w")
    from check_documents_effect[OF chk] assms(1) have mono: "clock w \<le> clock w1" by auto
    show ?thesis
    proof (cases "pending = []")
      case True
      with chk \<open>clock w - start_time < real_of_int timeout\<close> show ?thesis
        by (subst embedding_loop.simps) simp
    next
      case False
      let ?w2 = "\<lparr>clock = clock w1 + real_of_int check_interval + delay env (length (trace w1)),
                  trace = trace w1 @ [Slept check_interval]\<rparr>"
      have sl: "sleep env check_interval w1 = (Inr (), ?w2)"
        using assms(3) by (rule sleep_ok)
      have "0 \<le> delay env (length (trace w1))" using assms(1) by (simp add: steady_def)
      with mono have "clock w + real_of_int check_interval \<le> clock ?w2" by simp
      with Suc.prems have "real_of_int timeout - (clock ?w2 - start_time) \<le> real k * real_of_int check_interval"
        by (simp add: algebra_simps)
      from Suc.IH[OF this] obtain y where
        "embedding_loop env document_ids check_interval timeout start_time ?w2 = Some y" ..
      with chk False sl \<open>clock w - start_time < real_of_int timeout\<close> show ?thesis
        by (subst embedding_loop.simps) simp
    qed
  qed
qed

lemma embedding_loop_terminates_raising:
  assumes "sleep_exn env check_interval = Some e"
  shows "\<exists>y. embedding_loop env document_ids check_interval timeout start_time w = Some y"
proof -
  obtain pending w1 where chk: "check_documents env document_ids [] w = (pending, w1)"
    by (cases "check_documents env document_ids [] w")
  show ?thesis
    using chk sleep_raises[OF assms] by (subst embedding_loop.simps) simp
qed

lemma embedding_loop_terminates:
  assumes "steady env" and "check_interval \<noteq> 0"
  shows "\<exists>y. embedding_loop env document_ids check_interval timeout start_time w = Some y"
proof (cases "sleep_exn env check_interval")
  case (Some e)
  then show ?thesis by (rule embedding_loop_terminates_raising)
next
  case None
  with assms(2) have pos: "0 < check_interval" using sleep_exn_None[OF None] by simp
  obtain k :: nat where k: "real_of_int timeout - (clock w - start_time) \<le> real k"
    using real_arch_simple by blast
  have "real k \<le> real k * real_of_int check_interval"
    using pos by (simp add: mult_le_cancel_left1)
  with k have "real_of_int timeout - (clock w - start_time) \<le> real k * real_of_int check_interval"
    by linarith
  from embedding_loop_terminates_aux[OF assms(1) pos None this] show ?thesis .
qed

lemma flaky_run:
  "wait_for_embedding flaky_service [(''a'', PStr ''A''), (''b'', PStr ''B'')] 5 10 start =
     Some (Inr False,
       \<lparr>clock = 10,
        trace = [Called (GetDocumentStatus (PStr ''A'')) (status_is ''complete''),
                 Called (GetDocumentStatus (PStr ''B'')) (status_is ''pending''),
                 Slept 5,
                 Called (GetDocumentStatus (PStr ''A'')) (Inl (Exn NebuiaError ''Network error'')),
                 Called (GetDocumentStatus (PStr ''B'')) (status_is ''complete''),
                 Slept 5]\<rparr>)"
  by (simp add: wait_for_embedding_def embedding_loop.simps flaky_service_def scripted_def start_def
      status_is_def perform_def sleep_def sleep_exn_def Let_def)

lemma second_round_run:
  "wait_for_embedding second_round_service [(''a'', PStr ''A''), (''b'', PStr ''B'')] 5 60 start =
     Some (Inr True,
       \<lparr>clock = 5,
        trace = [Called (GetDocumentStatus (PStr ''A'')) (status_is ''complete''),
                 Called (GetDocumentStatus (PStr ''B'')) (status_is ''pending''),
                 Slept 5,
                 Called (GetDocumentStatus (PStr ''A'')) (status_is ''complete''),
                 Called (GetDocumentStatus (PStr ''B'')) (status_is ''complete'')]\<rparr>)"
  by (simp add: wait_for_embedding_def embedding_loop.simps second_round_service_def scripted_def
      start_def status_is_def perform_def sleep_def sleep_exn_def Let_def)

lemma steady_scripted: "0 \<le> d \<Longrightarrow> steady (scripted answers d)"
  by (simp add: steady_def scripted_def)

text \<open>
  Claim C4, as the code has it. \<open>wait_for_embedding\<close> returns whenever the interval is not
  zero and no effect makes the clock run backwards. When it returns, the effects it made
  are a sequence of polling rounds, each begun while the elapsed time was below the
  timeout, each a status check of every tracked item in mapping order in which some item
  was not complete, followed by one sleep of the interval; and then
  \<^item> \<^verbatim>\<open>True\<close> with a last round, also begun below the timeout, in which every item's check
    answered \<^verbatim>\<open>complete\<close> (all items in that same round; an item that was complete in an
    earlier round only does not count),
  \<^item> or \<^verbatim>\<open>False\<close> with no further effect, the elapsed time at that loop test being at or
    above the timeout,
  \<^item> or the exception \<^verbatim>\<open>time.sleep\<close> raises for the interval, after the first round.
  The final state is the one these effects lead to. Every sleep comes after a full round,
  so every item is checked before the first sleep; for a timeout of zero or less there is
  no check at all and the result is \<^verbatim>\<open>False\<close>.
\<close>

theorem wait_for_embedding_outcome:
  "(steady env \<and> check_interval \<noteq> 0 \<longrightarrow>
      (\<exists>result w'. wait_for_embedding env document_ids check_interval timeout w = Some (result, w'))) \<and>
   (\<forall>result w'.
      wait_for_embedding env document_ids check_interval timeout w = Some (result, w') \<longrightarrow>
      (timeout \<le> 0 \<longrightarrow> result = Inr False \<and> w' = w) \<and>
      (\<exists>rounds final.
         w' = after_events env w (polled check_interval rounds @ final) \<and>
         list_all (incomplete_round document_ids) rounds \<and>
         begun_in_time env (clock w) timeout w (with_sleep check_interval rounds) \<and>
         (result = Inr True \<and>
            clock (after_events env w (polled check_interval rounds)) - clock w < real_of_int timeout \<and>
            status_round document_ids final \<and> list_all reports_complete final \<or>
          result = Inr False \<and> final = [] \<and> real_of_int timeout \<le> clock w' - clock w \<or>
          (\<exists>e. result = Inl e \<and> sleep_exn env check_interval = Some e \<and> rounds = [] \<and>
               0 < timeout \<and> incomplete_round document_ids final))))"
proof (intro conjI impI allI)
  assume "steady env \<and> check_interval \<noteq> 0"
  then have "\<exists>y. embedding_loop env document_ids check_interval timeout (clock w) w = Some y"
    by (intro embedding_loop_terminates) simp_all
  then show "\<exists>result w'. wait_for_embedding env document_ids check_interval timeout w = Some (result, w')"
    by (simp add: wait_for_embedding_def)
next
  fix result w'
  assume run: "wait_for_embedding env document_ids check_interval timeout w = Some (result, w')"
    and "timeout \<le> 0"
  then show "result = Inr False" "w' = w"
    by (simp_all add: wait_for_embedding_def embedding_loop.simps)
next
  fix result w'
  assume run: "wait_for_embedding env document_ids check_interval timeout w = Some (result, w')"
  then have loop: "embedding_loop env document_ids check_interval timeout (clock w) w = Some (result, w')"
    by (simp add: wait_for_embedding_def)
  from embedding_loop_trace[OF loop]
  show "\<exists>rounds final.
         w' = after_events env w (polled check_interval rounds @ final) \<and>
         list_all (incomplete_round document_ids) rounds \<and>
         begun_in_time env (clock w) timeout w (with_sleep check_interval rounds) \<and>
         (result = Inr True \<and>
            clock (after_events env w (polled check_interval rounds)) - clock w < real_of_int timeout \<and>
            status_round document_ids final \<and> list_all reports_complete final \<or>
          result = Inr False \<and> final = [] \<and> real_of_int timeout \<le> clock w' - clock w \<or>
          (\<exists>e. result = Inl e \<and> sleep_exn env check_interval = Some e \<and> rounds = [] \<and>
               0 < timeout \<and> incomplete_round document_ids final))"
    unfolding embedding_post_def by simp
qed

theorem wait_for_embedding_outcome_witness:
  "steady second_round_service \<and> (5::int) \<noteq> 0 \<and>
   wait_for_embedding second_round_service [(''a'', PStr ''A''), (''b'', PStr ''B'')] 5 60 start =
     Some (Inr True,
       \<lparr>clock = 5,
        trace = [Called (GetDocumentStatus (PStr ''A'')) (status_is ''complete''),
                 Called (GetDocumentStatus (PStr ''B'')) (status_is ''pending''),
                 Slept 5,
                 Called (GetDocumentStatus (PStr ''A'')) (status_is ''complete''),
                 Called (GetDocumentStatus (PStr ''B'')) (status_is ''complete'')]\<rparr>) \<and>
   (\<exists>rounds final.
      \<lparr>clock = 5,
        trace = [Called (GetDocumentStatus (PStr ''A'')) (status_is ''complete''),
                 Called (GetDocumentStatus (PStr ''B'')) (status_is ''pending''),
                 Slept 5,
                 Called (GetDocumentStatus (PStr ''A'')) (status_is ''complete''),
                 Called (GetDocumentStatus (PStr ''B'')) (status_is ''complete'')]\<rparr> =
        after_events second_round_service start (polled 5 rounds @ final) \<and>
      list_all (incomplete_round [(''a'', PStr ''A''), (''b'', PStr ''B'')]) rounds \<and>
      begun_in_time second_round_service (clock start) 60 start (with_sleep 5 rounds) \<and>
      clock (after_events second_round_service start (polled 5 rounds)) - clock start < 60 \<and>
      status_round [(''a'', PStr ''A''), (''b'', PStr ''B'')] final \<and>
      list_all reports_complete final)"
proof -
  have st: "steady second_round_service"
    unfolding second_round_service_def by (rule steady_scripted) simp
  from wait_for_embedding_outcome[of second_round_service 5
      "[(''a'', PStr ''A''), (''b'', PStr ''B'')]" 60 start] second_round_run
  have "\<exists>rounds final.
      \<lparr>clock = 5,
        trace = [Called (GetDocumentStatus (PStr ''A'')) (status_is ''complete''),
                 Called (GetDocumentStatus (PStr ''B'')) (status_is ''pending''),
                 Slept 5,
                 Called (GetDocumentStatus (PStr ''A'')) (status_is ''complete''),
                 Called (GetDocumentStatus (PStr ''B'')) (status_is ''complete'')]\<rparr> =
        after_events second_round_service start (polled 5 rounds @ final) \<and>
      list_all (incomplete_round [(''a'', PStr ''A''), (''b'', PStr ''B'')]) rounds \<and>
      begun_in_time second_round_service (clock start) 60 start (with_sleep 5 rounds) \<and>
      clock (after_events second_round_service start (polled 5 rounds)) - clock start < 60 \<and>
      status_round [(''a'', PStr ''A''), (''b'', PStr ''B'')] final \<and>
      list_all reports_complete final"
    by auto
  then show ?thesis using st second_round_run by simp
qed

text \<open>
  The claim as stated fails: here the check of each item answers \<^verbatim>\<open>complete\<close> within the
  timeout (item A in the first round, item B in the second, where the check of A raises),
  and the result is \<^verbatim>\<open>False\<close>.
\<close>

theorem wait_for_embedding_flaky_counterexample:
  "wait_for_embedding flaky_service [(''a'', PStr ''A''), (''b'', PStr ''B'')] 5 10 start =
     Some (Inr False,
       \<lparr>clock = 10,
        trace = [Called (GetDocumentStatus (PStr ''A'')) (status_is ''complete''),
                 Called (GetDocumentStatus (PStr ''B'')) (status_is ''pending''),
                 Slept 5,
                 Called (GetDocumentStatus (PStr ''A'')) (Inl (Exn NebuiaError ''Network error'')),
                 Called (GetDocumentStatus (PStr ''B'')) (status_is ''complete''),
                 Slept 5]\<rparr>) \<and>
   reached_complete [(''a'', PStr ''A''), (''b'', PStr ''B'')]
     [Called (GetDocumentStatus (PStr ''A'')) (status_is ''complete''),
      Called (GetDocumentStatus (PStr ''B'')) (status_is ''pending''),
      Slept 5,
      Called (GetDocumentStatus (PStr ''A'')) (Inl (Exn NebuiaError ''Network error'')),
      Called (GetDocumentStatus (PStr ''B'')) (status_is ''complete''),
      Slept 5]"
  using flaky_run by (simp add: reached_complete_def status_is_def)

lemma is_call_iff: "is_call ev \<longleftrightarrow> event_call ev \<noteq> None"
  by (cases ev) auto

lemma status_round_calls:
  "status_round document_ids r \<Longrightarrow> filter is_call r = r"
proof -
  assume "status_round document_ids r"
  then have "\<forall>c \<in> set (map event_call r). c \<noteq> None"
    by (auto simp: status_round_def)
  then have "\<forall>ev \<in> set r. is_call ev" by (simp add: is_call_iff)
  then show ?thesis by (induction r) auto
qed

lemma status_round_checks:
  "status_round document_ids r \<Longrightarrow>
   status_checks document_id r = count_list (map snd document_ids) document_id"
proof (induction document_ids arbitrary: r)
  case Nil
  then show ?case by (simp add: status_round_def status_checks_def)
next
  case (Cons entry document_ids)
  then obtain ev r' where r: "r = ev # r'" "event_call ev = Some (GetDocumentStatus (snd entry))"
    "status_round document_ids r'"
    by (cases r) (auto simp: status_round_def)
  from Cons.IH[OF r(3)] r(1,2) show ?case by (auto simp: status_checks_def)
qed

lemma status_checks_append:
  "status_checks d (xs @ ys) = status_checks d xs + status_checks d ys"
  by (simp add: status_checks_def)

lemma polled_calls:
  "list_all (status_round document_ids) rounds \<Longrightarrow>
   filter is_call (polled check_interval rounds) = concat rounds"
  by (induction rounds) (auto simp: polled_def with_sleep_def intro: status_round_calls)

lemma polled_checks:
  "list_all (status_round document_ids) rounds \<Longrightarrow>
   status_checks document_id (polled check_interval rounds) =
     length rounds * count_list (map snd document_ids) document_id"
proof (induction rounds)
  case Nil
  then show ?case by (simp add: polled_def with_sleep_def status_checks_def)
next
  case (Cons r rounds)
  then have r: "status_round document_ids r" and rest: "list_all (status_round document_ids) rounds"
    by simp_all
  have "polled check_interval (r # rounds) = r @ ([Slept check_interval] @ polled check_interval rounds)"
    by (simp add: polled_def with_sleep_def)
  moreover have "status_checks document_id [Slept check_interval] = 0"
    by (simp add: status_checks_def)
  ultimately show ?case
    using Cons.IH[OF rest] status_round_checks[OF r, of document_id]
    by (simp only: status_checks_append) simp
qed

lemma incomplete_rounds_are_rounds:
  "list_all (incomplete_round document_ids) rounds \<Longrightarrow> list_all (status_round document_ids) rounds"
  by (induction rounds) (simp_all add: incomplete_round_def)


lemma incomplete_round_not_complete:
  "list_all (incomplete_round document_ids) rounds \<Longrightarrow>
   list_all (\<lambda>r. \<not> list_all reports_complete r) rounds"
  by (induction rounds) (simp_all add: incomplete_round_def)

lemma list_all_butlast: "list_all P xs \<Longrightarrow> list_all P (butlast xs)"
  by (induction xs) auto

lemma list_all_last: "list_all P xs \<Longrightarrow> xs \<noteq> [] \<Longrightarrow> P (last xs)"
  by (induction xs) auto

text \<open>
  Claim C5, as the code has it. There is no pending set that shrinks: every round of the
  loop status-checks every tracked item again, whatever its earlier checks answered. The
  calls of a run are a sequence of full rounds, each one check per tracked item in mapping
  order, so each item is checked once per round for as many rounds as the run has. In every
  round but the last some check did not answer \<^verbatim>\<open>complete\<close>, and the loop ends successfully,
  with \<^verbatim>\<open>True\<close>, exactly when every check of the last round answered \<^verbatim>\<open>complete\<close>.
\<close>

theorem embedding_loop_checks_every_item_each_round:
  "wait_for_embedding env document_ids check_interval timeout w = Some (result, w') \<Longrightarrow>
   \<exists>evs rounds.
     trace w' = trace w @ evs \<and>
     list_all (status_round document_ids) rounds \<and>
     filter is_call evs = concat rounds \<and>
     (\<forall>document_id.
        status_checks document_id evs = length rounds * count_list (map snd document_ids) document_id) \<and>
     list_all (\<lambda>r. \<not> list_all reports_complete r) (butlast rounds) \<and>
     (result = Inr True \<longleftrightarrow> rounds \<noteq> [] \<and> list_all reports_complete (last rounds))"
proof -
  assume "wait_for_embedding env document_ids check_interval timeout w = Some (result, w')"
  then have "embedding_loop env document_ids check_interval timeout (clock w) w = Some (result, w')"
    by (simp add: wait_for_embedding_def)
  from embedding_loop_trace[OF this] obtain rounds final where w':
    "w' = after_events env w (polled check_interval rounds @ final)"
    and inc: "list_all (incomplete_round document_ids) rounds"
    and ending: "result = Inr True \<and> status_round document_ids final \<and> list_all reports_complete final \<or>
       result = Inr False \<and> final = [] \<or>
       (\<exists>e. result = Inl e \<and> rounds = [] \<and> incomplete_round document_ids final)"
    unfolding embedding_post_def by auto
  have tr: "trace w' = trace w @ polled check_interval rounds @ final"
    using w' by (simp add: trace_after_events)
  have rs: "list_all (status_round document_ids) rounds"
    using inc by (rule incomplete_rounds_are_rounds)
  have nc: "list_all (\<lambda>r. \<not> list_all reports_complete r) rounds"
    using inc by (rule incomplete_round_not_complete)
  from ending consider
      (success) "result = Inr True" "status_round document_ids final" "list_all reports_complete final"
    | (timed_out) "result = Inr False" "final = []"
    | (raised) e where "result = Inl e" "rounds = []" "incomplete_round document_ids final"
    by blast
  then show ?thesis
  proof cases
    case success
    show ?thesis
      apply (rule exI[of _ "polled check_interval rounds @ final"])
      apply (rule exI[of _ "rounds @ [final]"])
      using tr rs nc success
      by (simp add: polled_calls[OF rs] status_round_calls[OF success(2)] status_checks_append
          polled_checks[OF rs] status_round_checks[OF success(2)])
  next
    case timed_out
    have "\<not> (rounds \<noteq> [] \<and> list_all reports_complete (last rounds))"
      using list_all_last[OF nc] by blast
    then show ?thesis
      apply (intro exI[of _ "polled check_interval rounds"] exI[of _ rounds])
      using tr rs timed_out list_all_butlast[OF nc]
      by (simp add: polled_calls[OF rs] polled_checks[OF rs])
  next
    case raised
    then have fin: "status_round document_ids final" and nfin: "\<not> list_all reports_complete final"
      by (simp_all add: incomplete_round_def)
    show ?thesis
      apply (rule exI[of _ final])
      apply (rule exI[of _ "[final]"])
      using tr raised(1,2) fin nfin
      by (simp add: polled_Nil status_round_calls[OF fin] status_round_checks[OF fin])
  qed
qed

theorem embedding_loop_checks_every_item_each_round_witness:
  "wait_for_embedding second_round_service [(''a'', PStr ''A''), (''b'', PStr ''B'')] 5 60 start =
     Some (Inr True,
       \<lparr>clock = 5,
        trace = [Called (GetDocumentStatus (PStr ''A'')) (status_is ''complete''),
                 Called (GetDocumentStatus (PStr ''B'')) (status_is ''pending''),
                 Slept 5,
                 Called (GetDocumentStatus (PStr ''A'')) (status_is ''complete''),
                 Called (GetDocumentStatus (PStr ''B'')) (status_is ''complete'')]\<rparr>) \<and>
   (\<exists>rounds.
      list_all (status_round [(''a'', PStr ''A''), (''b'', PStr ''B'')]) rounds \<and>
      [Called (GetDocumentStatus (PStr ''A'')) (status_is ''complete''),
       Called (GetDocumentStatus (PStr ''B'')) (status_is ''pending''),
       Called (GetDocumentStatus (PStr ''A'')) (status_is ''complete''),
       Called (GetDocumentStatus (PStr ''B'')) (status_is ''complete'')] = concat rounds \<and>
      2 = length rounds * count_list [PStr ''A'', PStr ''B''] (PStr ''A'') \<and>
      list_all (\<lambda>r. \<not> list_all reports_complete r) (butlast rounds) \<and>
      rounds \<noteq> [] \<and> list_all reports_complete (last rounds))"
proof -
  from embedding_loop_checks_every_item_each_round[OF second_round_run]
  obtain evs rounds where r:
    "trace \<lparr>clock = 5,
        trace = [Called (GetDocumentStatus (PStr ''A'')) (status_is ''complete''),
                 Called (GetDocumentStatus (PStr ''B'')) (status_is ''pending''),
                 Slept 5,
                 Called (GetDocumentStatus (PStr ''A'')) (status_is ''complete''),
                 Called (GetDocumentStatus (PStr ''B'')) (status_is ''complete'')]\<rparr> = trace start @ evs"
    "list_all (status_round [(''a'', PStr ''A''), (''b'', PStr ''B'')]) rounds"
    "filter is_call evs = concat rounds"
    "status_checks (PStr ''A'') evs =
       length rounds * count_list (map snd [(''a'', PStr ''A''), (''b'', PStr ''B'')]) (PStr ''A'')"
    "list_all (\<lambda>r. \<not> list_all reports_complete r) (butlast rounds)"
    "rounds \<noteq> [] \<and> list_all reports_complete (last rounds)"
    by blast
  from r(1) have evs: "evs = [Called (GetDocumentStatus (PStr ''A'')) (status_is ''complete''),
                 Called (GetDocumentStatus (PStr ''B'')) (status_is ''pending''),
                 Slept 5,
                 Called (GetDocumentStatus (PStr ''A'')) (status_is ''complete''),
                 Called (GetDocumentStatus (PStr ''B'')) (status_is ''complete'')]"
    by (simp add: start_def)
  have "\<exists>rounds.
      list_all (status_round [(''a'', PStr ''A''), (''b'', PStr ''B'')]) rounds \<and>
      [Called (GetDocumentStatus (PStr ''A'')) (status_is ''complete''),
       Called (GetDocumentStatus (PStr ''B'')) (status_is ''pending''),
       Called (GetDocumentStatus (PStr ''A'')) (status_is ''complete''),
       Called (GetDocumentStatus (PStr ''B'')) (status_is ''complete'')] = concat rounds \<and>
      2 = length rounds * count_list [PStr ''A'', PStr ''B''] (PStr ''A'') \<and>
      list_all (\<lambda>r. \<not> list_all reports_complete r) (butlast rounds) \<and>
      rounds \<noteq> [] \<and> list_all reports_complete (last rounds)"
    apply (rule exI[of _ rounds])
    using r(2,3,4,5,6) unfolding evs by (simp add: status_checks_def)
  with second_round_run show ?thesis by simp
qed

text \<open>
  The claim as stated fails: the first check of item A answers \<^verbatim>\<open>complete\<close>, and A is
  checked again in the second round.
\<close>

theorem embedding_loop_rechecks_complete_counterexample:
  "wait_for_embedding second_round_service [(''a'', PStr ''A''), (''b'', PStr ''B'')] 5 60 start =
     Some (Inr True,
       \<lparr>clock = 5,
        trace = [Called (GetDocumentStatus (PStr ''A'')) (status_is ''complete''),
                 Called (GetDocumentStatus (PStr ''B'')) (status_is ''pending''),
                 Slept 5,
                 Called (GetDocumentStatus (PStr ''A'')) (status_is ''complete''),
                 Called (GetDocumentStatus (PStr ''B'')) (status_is ''complete'')]\<rparr>) \<and>
   reports_complete (Called (GetDocumentStatus (PStr ''A'')) (status_is ''complete'')) \<and>
   status_checks (PStr ''A'')
     [Called (GetDocumentStatus (PStr ''A'')) (status_is ''complete''),
      Called (GetDocumentStatus (PStr ''B'')) (status_is ''pending''),
      Slept 5,
      Called (GetDocumentStatus (PStr ''A'')) (status_is ''complete''),
      Called (GetDocumentStatus (PStr ''B'')) (status_is ''complete'')] = 2"
  using second_round_run by (simp add: status_checks_def status_is_def)

section \<open>wait_for_record_completion: how a run ends\<close>

lemma completion_post_final:
  "w1 = after_events env w final \<Longrightarrow>
   completion_outcome env record_id timeout polling_interval callback start_time w final result \<Longrightarrow>
   completion_post env record_id timeout polling_interval callback start_time w (result, w1)"
  unfolding completion_post_def by (intro exI[of _ "[]"] exI[of _ final]) simp

lemma completion_post_step:
  assumes "pending_poll record_id polling_interval p"
    and "clock w - start_time < real_of_int timeout"
    and "accepted env callback start_time w p"
    and "w2 = after_events env w p"
    and "completion_post env record_id timeout polling_interval callback start_time w2 y"
  shows "completion_post env record_id timeout polling_interval callback start_time w y"
proof -
  from assms(5) obtain polls final where post:
    "snd y = after_events env w2 (concat polls @ final)"
    "list_all (pending_poll record_id polling_interval) polls"
    "begun_in_time env start_time timeout w2 polls"
    "all_accepted env callback start_time w2 polls"
    "completion_outcome env record_id timeout polling_interval callback start_time
       (after_events env w2 (concat polls)) final (fst y)"
    unfolding completion_post_def by blast
  show ?thesis
    unfolding completion_post_def
    apply (rule exI[of _ "p # polls"])
    apply (rule exI[of _ final])
    using post assms(1,2,3,4) by (simp add: after_events_append)
qed

lemma completion_loop_trace:
  assumes run: "completion_loop env record_id timeout polling_interval callback start_time w = Some y"
  shows "completion_post env record_id timeout polling_interval callback start_time w y"
proof (rule completion_loop.raw_induct[where P = "\<lambda>env record_id timeout polling_interval callback start_time w y.
      completion_post env record_id timeout polling_interval callback start_time w y", OF _ run])
  fix loop and env :: env and record_id timeout polling_interval callback start_time and w :: world and y
  assume IH: "\<And>(env :: env) record_id timeout polling_interval callback start_time w y.
      loop env record_id timeout polling_interval callback start_time w = Some y \<Longrightarrow>
      completion_post env record_id timeout polling_interval callback start_time w y"
  let ?c = "GetRecordDetails record_id"
  let ?r = "respond env (length (trace w)) ?c"
  let ?w1 = "\<lparr>clock = clock w + delay env (length (trace w)), trace = trace w @ [Called ?c ?r]\<rparr>"
  assume body: "(if clock w - start_time < real_of_int timeout
      then (case perform env (GetRecordDetails record_id) w of
           (Inl e, w1) \<Rightarrow> Some (Inl e, w1)
           | (Inr record_details, w1) \<Rightarrow>
               (case py_get record_details ''status'' (PStr ''unknown'') of
               Inl e \<Rightarrow> Some (Inl e, w1)
               | Inr current_status \<Rightarrow>
                   (case (case callback of None \<Rightarrow> Inr ()
                        | Some cb \<Rightarrow> cb current_status (clock w1 - start_time) record_details) of
                   Inl e \<Rightarrow> Some (Inl e, w1)
                   | Inr u \<Rightarrow>
                       if current_status = PStr ''complete''
                       then Some (Inr record_details, w1)
                       else if current_status = PStr ''error''
                            then (case py_get record_details ''error_message'' (PStr ''Unknown error'') of
                                 Inl e \<Rightarrow> Some (Inl e, w1)
                                 | Inr error_message \<Rightarrow>
                                     Some (Inl (Exn NebuiaError
                                        (''Record processing failed: '' @ py_str env error_message)), w1))
                            else (case sleep env polling_interval w1 of
                                 (Inl e, w2) \<Rightarrow> Some (Inl e, w2)
                                 | (Inr u', w2) \<Rightarrow>
                                     loop env record_id timeout polling_interval callback start_time w2))))
      else Some (Inl (Exn TimeoutError
                   (''Timeout exceeded for record '' @ py_str env record_id @ '' after '' @
                    py_str env (PInt timeout) @ '' seconds'')), w)) = Some y"
  show "completion_post env record_id timeout polling_interval callback start_time w y"
  proof (cases "clock w - start_time < real_of_int timeout")
    case False
    with body have y: "y = (Inl (timeout_error env record_id timeout), w)"
      by (simp add: timeout_error_def)
    show ?thesis unfolding y
      by (rule completion_post_final[of _ _ _ "[]"]) (use False in \<open>simp_all add: completion_outcome_def\<close>)
  next
    case guard: True
    have tr: "?w1 = after_events env w [Called ?c ?r]" by simp
    show ?thesis
    proof (cases ?r)
      case (Inl e)
      with body guard have y: "y = (Inl e, ?w1)" by (simp add: perform_effect)
      show ?thesis unfolding y
        by (rule completion_post_final[OF tr])
          (use Inl guard in \<open>simp add: completion_outcome_def propagates_def\<close>)
    next
      case (Inr d)
      show ?thesis
      proof (cases "py_get d ''status'' (PStr ''unknown'')")
        case (Inl e)
        with body guard Inr have y: "y = (Inl e, ?w1)" by (simp add: perform_effect)
        show ?thesis unfolding y
          by (rule completion_post_final[OF tr])
            (use Inl Inr guard in \<open>simp add: completion_outcome_def propagates_def\<close>)
      next
        case st: (Inr current_status)
        let ?wd = "\<lparr>clock = clock w + delay env (length (trace w)),
                   trace = trace w @ [Called ?c (Inr d)]\<rparr>"
        let ?cb = "case callback of None \<Rightarrow> Inr ()
                   | Some cb \<Rightarrow> cb current_status (clock ?wd - start_time) d"
        show ?thesis
        proof (cases ?cb)
          case (Inl e)
          with body guard Inr st have y: "y = (Inl e, ?w1)" by (simp add: perform_effect)
          from Inl have "notified callback current_status (clock ?wd - start_time) d = Inl e"
            by (cases callback) (simp_all add: notified_def)
          then have "propagates env callback polling_interval (clock ?wd - start_time) (Inr d) e"
            using st by (simp add: propagates_def)
          then show ?thesis unfolding y
            by (intro completion_post_final[OF tr])
              (use Inr guard in \<open>auto simp add: completion_outcome_def\<close>)
        next
          case cbok: (Inr u)
          with body guard Inr st
          have body2: "(if current_status = PStr ''complete'' then Some (Inr d, ?wd)
               else if current_status = PStr ''error''
                 then (case py_get d ''error_message'' (PStr ''Unknown error'') of
                         Inl e \<Rightarrow> Some (Inl e, ?wd)
                       | Inr error_message \<Rightarrow>
                           Some (Inl (Exn NebuiaError
                             (''Record processing failed: '' @ py_str env error_message)), ?wd))
                 else (case sleep env polling_interval ?wd of
                         (Inl e, w2) \<Rightarrow> Some (Inl e, w2)
                       | (Inr u', w2) \<Rightarrow>
                           loop env record_id timeout polling_interval callback start_time w2)) = Some y"
            by (simp add: perform_effect)
          have wd: "?w1 = ?wd" using Inr by simp
          have told: "notified callback current_status (clock ?wd - start_time) d = Inr ()"
            using cbok by (cases callback) (simp_all add: notified_def)
          have acc: "accepted env callback start_time w (Called ?c ?r # evs)" for evs
            using Inr st told by simp
          consider (complete) "current_status = PStr ''complete''"
            | (error) "current_status = PStr ''error''"
            | (pending) "current_status \<noteq> PStr ''complete''" "current_status \<noteq> PStr ''error''"
            by blast
          then show ?thesis
          proof cases
            case complete
            with body2 wd have y: "y = (Inr d, ?w1)" by simp
            show ?thesis unfolding y
              by (rule completion_post_final[OF tr])
                (use Inr st complete guard acc[of "[]"] in \<open>simp add: completion_outcome_def\<close>)
          next
            case error
            from st obtain kvs where d: "d = PDict kvs" by (cases d) auto
            then obtain msg where msg: "py_get d ''error_message'' (PStr ''Unknown error'') = Inr msg"
              by simp
            with body2 wd error
            have y: "y = (Inl (Exn NebuiaError (''Record processing failed: '' @ py_str env msg)), ?w1)"
              by simp
            show ?thesis unfolding y
              by (rule completion_post_final[OF tr])
                (use Inr st error msg guard acc[of "[]"] in \<open>simp add: completion_outcome_def\<close>)
          next
            case pending
            obtain r w2 where sl: "sleep env polling_interval ?w1 = (r, w2)"
              by (cases "sleep env polling_interval ?w1")
            from sleep_effect[OF sl] show ?thesis
            proof
              assume "\<exists>e. sleep_exn env polling_interval = Some e \<and> r = Inl e \<and> w2 = ?w1"
              then obtain e where raised: "sleep_exn env polling_interval = Some e" "r = Inl e" "w2 = ?w1"
                by blast
              with body2 wd pending sl have y: "y = (Inl e, ?w1)" by simp
              have "propagates env callback polling_interval (clock ?wd - start_time) (Inr d) e"
                using st pending raised told by (simp add: propagates_def)
              then show ?thesis unfolding y
                by (intro completion_post_final[OF tr])
                  (use Inr guard in \<open>auto simp add: completion_outcome_def\<close>)
            next
              assume ok: "sleep_exn env polling_interval = None \<and> r = Inr () \<and>
                w2 = after_events env ?w1 [Slept polling_interval]"
              with body2 wd pending sl
              have "loop env record_id timeout polling_interval callback start_time w2 = Some y"
                by simp
              from IH[OF this]
              have rec: "completion_post env record_id timeout polling_interval callback start_time w2 y" .
              have p: "pending_poll record_id polling_interval [Called ?c ?r, Slept polling_interval]"
                using Inr st pending by simp
              have "w2 = after_events env w [Called ?c ?r, Slept polling_interval]"
                using ok by simp
              from completion_post_step[OF p guard acc this rec] show ?thesis .
            qed
          qed
        qed
      qed
    qed
  qed
qed

lemma completion_loop_terminates_aux:
  assumes "steady env" and "0 < polling_interval" and "sleep_exn env polling_interval = None"
  shows "real_of_int timeout - (clock w - start_time) \<le> real k * real_of_int polling_interval \<Longrightarrow>
         \<exists>y. completion_loop env record_id timeout polling_interval callback start_time w = Some y"
proof (induction k arbitrary: w)
  case 0
  then have "\<not> clock w - start_time < real_of_int timeout" by simp
  then show ?case by (subst completion_loop.simps) simp
next
  case (Suc k)
  let ?c = "GetRecordDetails record_id"
  let ?r = "respond env (length (trace w)) ?c"
  let ?w1 = "\<lparr>clock = clock w + delay env (length (trace w)), trace = trace w @ [Called ?c ?r]\<rparr>"
  let ?w2 = "\<lparr>clock = clock ?w1 + real_of_int polling_interval + delay env (length (trace ?w1)),
              trace = trace ?w1 @ [Slept polling_interval]\<rparr>"
  have sl: "sleep env polling_interval ?w1 = (Inr (), ?w2)"
    using assms(3) by (rule sleep_ok)
  have "0 \<le> delay env (length (trace w))" "0 \<le> delay env (length (trace ?w1))"
    using assms(1) by (simp_all add: steady_def)
  then have "clock w + real_of_int polling_interval \<le> clock ?w2" by simp
  with Suc.prems have "real_of_int timeout - (clock ?w2 - start_time) \<le> real k * real_of_int polling_interval"
    by (simp add: algebra_simps)
  from Suc.IH[OF this] obtain y where
    rec: "completion_loop env record_id timeout polling_interval callback start_time ?w2 = Some y" ..
  show ?case
    apply (subst completion_loop.simps)
    using rec sl by (auto simp: perform_effect split: sum.splits)
qed

lemma completion_loop_terminates_raising:
  assumes "sleep_exn env polling_interval = Some e"
  shows "\<exists>y. completion_loop env record_id timeout polling_interval callback start_time w = Some y"
  apply (subst completion_loop.simps)
  using sleep_raises[OF assms] by (auto simp: perform_effect split: sum.splits)

lemma completion_loop_terminates:
  assumes "steady env" and "0 < polling_interval"
  shows "\<exists>y. completion_loop env record_id timeout polling_interval callback start_time w = Some y"
proof (cases "sleep_exn env polling_interval")
  case (Some e)
  then show ?thesis by (rule completion_loop_terminates_raising)
next
  case None
  obtain k :: nat where k: "real_of_int timeout - (clock w - start_time) \<le> real k"
    using real_arch_simple by blast
  have "real k \<le> real k * real_of_int polling_interval"
    using assms(2) by (simp add: mult_le_cancel_left1)
  with k have "real_of_int timeout - (clock w - start_time) \<le> real k * real_of_int polling_interval"
    by linarith
  from completion_loop_terminates_aux[OF assms None this] show ?thesis .
qed

lemma completion_post_extends:
  "completion_post env record_id timeout polling_interval callback start_time w y \<Longrightarrow>
   \<exists>evs. trace (snd y) = trace w @ evs"
  unfolding completion_post_def by (auto simp: trace_after_events)

lemma completion_loop_first_fetch:
  assumes run: "completion_loop env record_id timeout polling_interval callback start_time w = Some y"
    and guard: "clock w - start_time < real_of_int timeout"
  shows "\<exists>response evs. trace (snd y) = trace w @ Called (GetRecordDetails record_id) response # evs"
proof -
  let ?c = "GetRecordDetails record_id"
  let ?r = "respond env (length (trace w)) ?c"
  let ?w1 = "\<lparr>clock = clock w + delay env (length (trace w)), trace = trace w @ [Called ?c ?r]\<rparr>"
  let ?w2 = "\<lparr>clock = clock ?w1 + real_of_int polling_interval + delay env (length (trace ?w1)),
              trace = trace ?w1 @ [Slept polling_interval]\<rparr>"
  from run guard have "snd y = ?w1 \<or>
      completion_loop env record_id timeout polling_interval callback start_time ?w2 = Some y"
    by (subst (asm) completion_loop.simps)
      (auto simp: perform_effect sleep_def split: sum.splits if_splits option.splits)
  then show ?thesis
  proof
    assume "snd y = ?w1"
    then show ?thesis by simp
  next
    assume "completion_loop env record_id timeout polling_interval callback start_time ?w2 = Some y"
    from completion_post_extends[OF completion_loop_trace[OF this]]
    obtain evs where "trace (snd y) = trace ?w2 @ evs" ..
    then show ?thesis by simp
  qed
qed

text \<open>
  Claim C6, as the code has it. \<open>wait_for_record_completion\<close> returns or raises whenever
  the interval is positive and no effect makes the clock run backwards. The effects of a
  run are polls that left the record pending, each begun while the elapsed time was below
  the timeout, each a fetch followed by one sleep of exactly the interval; the final state
  is the one these effects lead to. The loop test after them ends the run in one of four
  ways. When it finds the elapsed time at or above the timeout there is no further fetch
  and a \<^verbatim>\<open>TimeoutError\<close> is raised. When it finds the elapsed time below the timeout there
  is one more fetch, and
  \<^item> its status is \<^verbatim>\<open>complete\<close>: that snapshot is returned;
  \<^item> or its status is \<^verbatim>\<open>error\<close>: a \<^verbatim>\<open>NebuiaError\<close> with the entity's \<^verbatim>\<open>error_message\<close>;
  \<^item> or the fetch raised, or its answer is not a dictionary, or the callback raised on
    it, or the record was pending and \<^verbatim>\<open>time.sleep\<close> raised: that exception, unchanged.
  The callback, when one is given, is called after every fetch that answered a dictionary,
  with the status, the elapsed time and the record details; in each pending poll and before
  the first two endings it did not raise.
  With a positive timeout the first effect is a fetch (no initial delay); with a timeout of
  zero or less the \<^verbatim>\<open>TimeoutError\<close> is raised before any fetch.
\<close>

theorem wait_for_record_completion_outcomes:
  "(steady env \<and> 0 < polling_interval \<longrightarrow>
      (\<exists>result w'. wait_for_record_completion env record_id timeout polling_interval callback w =
                     Some (result, w'))) \<and>
   (\<forall>result w'.
      wait_for_record_completion env record_id timeout polling_interval callback w = Some (result, w') \<longrightarrow>
      (timeout \<le> 0 \<longrightarrow> result = Inl (timeout_error env record_id timeout) \<and> w' = w) \<and>
      (0 < timeout \<longrightarrow>
         (\<exists>response evs. trace w' = trace w @ Called (GetRecordDetails record_id) response # evs)) \<and>
      (\<exists>polls final.
         w' = after_events env w (concat polls @ final) \<and>
         list_all (pending_poll record_id polling_interval) polls \<and>
         begun_in_time env (clock w) timeout w polls \<and>
         all_accepted env callback (clock w) w polls \<and>
         completion_outcome env record_id timeout polling_interval callback (clock w)
           (after_events env w (concat polls)) final result))"
proof (intro conjI impI allI)
  assume "steady env \<and> 0 < polling_interval"
  then have "\<exists>y. completion_loop env record_id timeout polling_interval callback (clock w) w = Some y"
    by (intro completion_loop_terminates) simp_all
  then show "\<exists>result w'. wait_for_record_completion env record_id timeout polling_interval callback w =
                     Some (result, w')"
    by (simp add: wait_for_record_completion_def)
next
  fix result w'
  assume "wait_for_record_completion env record_id timeout polling_interval callback w = Some (result, w')"
    and "timeout \<le> 0"
  then show "result = Inl (timeout_error env record_id timeout)" "w' = w"
    by (simp_all add: wait_for_record_completion_def completion_loop.simps timeout_error_def)
next
  fix result w'
  assume "wait_for_record_completion env record_id timeout polling_interval callback w = Some (result, w')"
    and "0 < timeout"
  then show "\<exists>response evs. trace w' = trace w @ Called (GetRecordDetails record_id) response # evs"
    using completion_loop_first_fetch[of env record_id timeout polling_interval callback "clock w" w "(result, w')"]
    by (simp add: wait_for_record_completion_def)
next
  fix result w'
  assume "wait_for_record_completion env record_id timeout polling_interval callback w = Some (result, w')"
  then have "completion_loop env record_id timeout polling_interval callback (clock w) w = Some (result, w')"
    by (simp add: wait_for_record_completion_def)
  from completion_loop_trace[OF this]
  show "\<exists>polls final.
         w' = after_events env w (concat polls @ final) \<and>
         list_all (pending_poll record_id polling_interval) polls \<and>
         begun_in_time env (clock w) timeout w polls \<and>
         all_accepted env callback (clock w) w polls \<and>
         completion_outcome env record_id timeout polling_interval callback (clock w)
           (after_events env w (concat polls)) final result"
    by (simp add: completion_post_def)
qed

lemma pending_then_complete_run:
  "wait_for_record_completion pending_then_complete (PStr ''rec-1'') 10 1 (Some status_callback) start =
     Some (record_status_is ''complete'',
       \<lparr>clock = 2,
        trace = [Called (GetRecordDetails (PStr ''rec-1'')) (record_status_is ''processing''),
                 Slept 1,
                 Called (GetRecordDetails (PStr ''rec-1'')) (record_status_is ''processing''),
                 Slept 1,
                 Called (GetRecordDetails (PStr ''rec-1'')) (record_status_is ''complete'')]\<rparr>)"
  by (simp add: wait_for_record_completion_def completion_loop.simps pending_then_complete_def
      scripted_def start_def record_status_is_def perform_def sleep_def sleep_exn_def Let_def
      status_callback_def)

theorem wait_for_record_completion_outcomes_witness:
  "steady pending_then_complete \<and> (0::int) < 1 \<and> (0::int) < 10 \<and>
   wait_for_record_completion pending_then_complete (PStr ''rec-1'') 10 1 (Some status_callback) start =
     Some (record_status_is ''complete'',
       \<lparr>clock = 2,
        trace = [Called (GetRecordDetails (PStr ''rec-1'')) (record_status_is ''processing''),
                 Slept 1,
                 Called (GetRecordDetails (PStr ''rec-1'')) (record_status_is ''processing''),
                 Slept 1,
                 Called (GetRecordDetails (PStr ''rec-1'')) (record_status_is ''complete'')]\<rparr>) \<and>
   (\<exists>polls final.
      \<lparr>clock = 2,
        trace = [Called (GetRecordDetails (PStr ''rec-1'')) (record_status_is ''processing''),
                 Slept 1,
                 Called (GetRecordDetails (PStr ''rec-1'')) (record_status_is ''processing''),
                 Slept 1,
                 Called (GetRecordDetails (PStr ''rec-1'')) (record_status_is ''complete'')]\<rparr> =
        after_events pending_then_complete start (concat polls @ final) \<and>
      list_all (pending_poll (PStr ''rec-1'') 1) polls \<and>
      begun_in_time pending_then_complete (clock start) 10 start polls \<and>
      all_accepted pending_then_complete (Some status_callback) (clock start) start polls \<and>
      completion_outcome pending_then_complete (PStr ''rec-1'') 10 1 (Some status_callback) (clock start)
        (after_events pending_then_complete start (concat polls)) final
        (record_status_is ''complete''))"
proof -
  have st: "steady pending_then_complete"
    unfolding pending_then_complete_def by (rule steady_scripted) simp
  from wait_for_record_completion_outcomes[of pending_then_complete 1 "PStr ''rec-1''" 10
      "Some status_callback" start] pending_then_complete_run
  have "\<exists>polls final.
      \<lparr>clock = 2,
        trace = [Called (GetRecordDetails (PStr ''rec-1'')) (record_status_is ''processing''),
                 Slept 1,
                 Called (GetRecordDetails (PStr ''rec-1'')) (record_status_is ''processing''),
                 Slept 1,
                 Called (GetRecordDetails (PStr ''rec-1'')) (record_status_is ''complete'')]\<rparr> =
        after_events pending_then_complete start (concat polls @ final) \<and>
      list_all (pending_poll (PStr ''rec-1'') 1) polls \<and>
      begun_in_time pending_then_complete (clock start) 10 start polls \<and>
      all_accepted pending_then_complete (Some status_callback) (clock start) start polls \<and>
      completion_outcome pending_then_complete (PStr ''rec-1'') 10 1 (Some status_callback) (clock start)
        (after_events pending_then_complete start (concat polls)) final
        (record_status_is ''complete'')"
    by blast
  then show ?thesis using st pending_then_complete_run by simp
qed

text \<open>
  The claim as stated fails: there is a fourth way to terminate. Here the first fetch
  raises a \<^verbatim>\<open>NebuiaApiError\<close>, which the loop lets through: no status was fetched and
  the timeout was not reached.
\<close>

theorem wait_for_record_completion_fetch_error_counterexample:
  "wait_for_record_completion failing_fetch (PStr ''rec-1'') 10 1 None start =
     Some (Inl (Exn NebuiaApiError ''Request failed: Internal Server Error''),
       \<lparr>clock = 0,
        trace = [Called (GetRecordDetails (PStr ''rec-1''))
                   (Inl (Exn NebuiaApiError ''Request failed: Internal Server Error''))]\<rparr>) \<and>
   \<not> is_TimeoutError (Exn NebuiaApiError ''Request failed: Internal Server Error'') \<and>
   Exn NebuiaApiError ''Request failed: Internal Server Error'' \<noteq> timeout_error failing_fetch (PStr ''rec-1'') 10 \<and>
   exn_kind (Exn NebuiaApiError ''Request failed: Internal Server Error'') \<noteq> NebuiaError"
  by (simp add: wait_for_record_completion_def completion_loop.simps failing_fetch_def
      scripted_def start_def perform_def Let_def is_TimeoutError_def timeout_error_def)

section \<open>process_documents: what each phase adds to the trace\<close>

lemma adds_refl: "adds P w w"
  by (simp add: adds_def)

lemma adds_trans: "adds P w w1 \<Longrightarrow> adds P w1 w2 \<Longrightarrow> adds P w w2"
  unfolding adds_def by (elim exE conjE, rule_tac x = "evs @ evsa" in exI) simp

lemma adds_mono: "adds P w w' \<Longrightarrow> (\<And>ev. P ev \<Longrightarrow> Q ev) \<Longrightarrow> adds Q w w'"
  unfolding adds_def by (auto simp: list_all_iff)

lemma adds_perform:
  "P (Called c (respond env (length (trace w)) c)) \<Longrightarrow> adds P w (snd (perform env c w))"
  by (simp add: adds_def perform_effect)

lemma adds_perform':
  "perform env c w = (r, w') \<Longrightarrow> P (Called c r) \<Longrightarrow> adds P w w'"
  by (auto simp: adds_def perform_effect)

lemma upload_loop_quiet:
  "upload_loop env record_id documents document_ids w = (document_ids', w') \<Longrightarrow> adds quiet w w'"
proof (induction documents arbitrary: document_ids w)
  case Nil
  then show ?case by (simp add: adds_refl)
next
  case (Cons entry documents)
  obtain doc_type file_path where entry: "entry = (doc_type, file_path)" by (cases entry)
  obtain r1 w1 where p1: "perform env (UploadDocument record_id file_path doc_type) w = (r1, w1)"
    by (cases "perform env (UploadDocument record_id file_path doc_type) w")
  have a1: "adds quiet w w1" by (rule adds_perform'[OF p1]) (simp add: quiet_def)
  obtain r2 w2 where p2: "perform env (GetRecordDetails record_id) w1 = (r2, w2)"
    by (cases "perform env (GetRecordDetails record_id) w1")
  have a2: "adds quiet w1 w2" by (rule adds_perform'[OF p2]) (simp add: quiet_def)
  from Cons.prems entry p1 p2
  have "(\<exists>ids. upload_loop env record_id documents ids w1 = (document_ids', w')) \<or>
        (\<exists>ids. upload_loop env record_id documents ids w2 = (document_ids', w'))"
    by (auto split: sum.splits option.splits)
  then show ?case
  proof
    assume "\<exists>ids. upload_loop env record_id documents ids w1 = (document_ids', w')"
    then obtain ids where "upload_loop env record_id documents ids w1 = (document_ids', w')" ..
    from Cons.IH[OF this] a1 show ?thesis by (blast intro: adds_trans)
  next
    assume "\<exists>ids. upload_loop env record_id documents ids w2 = (document_ids', w')"
    then obtain ids where "upload_loop env record_id documents ids w2 = (document_ids', w')" ..
    from Cons.IH[OF this] a1 a2 show ?thesis by (blast intro: adds_trans)
  qed
qed

lemma upload_loop_empty: "upload_loop env record_id [] document_ids w = (document_ids, w)"
  by simp

lemma create_and_upload_quiet:
  "create_and_upload env documents config_name w = (r, w') \<Longrightarrow> adds quiet w w'"
proof -
  assume run: "create_and_upload env documents config_name w = (r, w')"
  obtain r1 w1 where p1: "perform env (CreateRecord config_name) w = (r1, w1)"
    by (cases "perform env (CreateRecord config_name) w")
  have a1: "adds quiet w w1" by (rule adds_perform'[OF p1]) (simp add: quiet_def)
  from run p1 have "w' = w1 \<or> (\<exists>record_id ids. upload_loop env record_id documents [] w1 = (ids, w'))"
    by (auto simp: create_and_upload_def split: sum.splits if_splits prod.splits)
  then show ?thesis
  proof
    assume "w' = w1"
    with a1 show ?thesis by simp
  next
    assume "\<exists>record_id ids. upload_loop env record_id documents [] w1 = (ids, w')"
    then obtain record_id ids where "upload_loop env record_id documents [] w1 = (ids, w')" by blast
    from upload_loop_quiet[OF this] a1 show ?thesis by (blast intro: adds_trans)
  qed
qed

lemma status_round_quiet: "status_round document_ids r \<Longrightarrow> list_all quiet r"
proof (induction document_ids arbitrary: r)
  case Nil
  then show ?case by (simp add: status_round_def)
next
  case (Cons entry document_ids)
  then obtain ev r' where r: "r = ev # r'" "event_call ev = Some (GetDocumentStatus (snd entry))"
    "status_round document_ids r'"
    by (cases r) (auto simp: status_round_def)
  from r(2) have "quiet ev" by (cases ev) (auto simp: quiet_def)
  with Cons.IH[OF r(3)] r(1) show ?case by simp
qed

lemma polled_quiet:
  "list_all (status_round document_ids) rounds \<Longrightarrow> list_all quiet (polled check_interval rounds)"
  by (induction rounds) (auto simp: polled_def with_sleep_def quiet_def dest: status_round_quiet)

lemma wait_for_embedding_quiet:
  assumes "wait_for_embedding env document_ids check_interval timeout w = Some (r, w')"
  shows "adds quiet w w'"
proof -
  from assms have "embedding_loop env document_ids check_interval timeout (clock w) w = Some (r, w')"
    by (simp add: wait_for_embedding_def)
  from embedding_loop_trace[OF this] obtain rounds final where w':
    "w' = after_events env w (polled check_interval rounds @ final)"
    and inc: "list_all (incomplete_round document_ids) rounds"
    and ending: "status_round document_ids final \<or> final = []"
    unfolding embedding_post_def by (auto simp: incomplete_round_def)
  have post: "trace w' = trace w @ polled check_interval rounds @ final"
    "list_all (incomplete_round document_ids) rounds"
    "status_round document_ids final \<or> final = []"
    using w' inc ending by (simp_all add: trace_after_events)
  have "list_all quiet (polled check_interval rounds)"
    using post(2) by (intro polled_quiet incomplete_rounds_are_rounds)
  moreover have "list_all quiet final"
    using post(3) by (auto dest: status_round_quiet)
  ultimately show ?thesis using post(1) by (auto simp: adds_def)
qed

lemma pending_poll_quiet: "pending_poll record_id polling_interval p \<Longrightarrow> list_all quiet p"
  by (induction record_id polling_interval p rule: pending_poll.induct) (auto simp: quiet_def)

lemma completion_outcome_quiet:
  "completion_outcome env record_id timeout polling_interval callback start_time w final result \<Longrightarrow>
   list_all quiet final"
  unfolding completion_outcome_def by (auto simp: quiet_def)

lemma wait_for_record_completion_quiet:
  assumes "wait_for_record_completion env record_id timeout polling_interval callback w = Some (r, w')"
  shows "adds quiet w w'"
proof -
  from assms have "completion_loop env record_id timeout polling_interval callback (clock w) w = Some (r, w')"
    by (simp add: wait_for_record_completion_def)
  from completion_loop_trace[OF this] obtain polls final wl where post:
    "trace w' = trace w @ concat polls @ final"
    "list_all (pending_poll record_id polling_interval) polls"
    "completion_outcome env record_id timeout polling_interval callback (clock w) wl final r"
    unfolding completion_post_def by (auto simp: trace_after_events)
  have "list_all quiet (concat polls)"
    using post(2) by (induction polls) (auto dest: pending_poll_quiet)
  with completion_outcome_quiet[OF post(3)] post(1) show ?thesis
    by (auto simp: adds_def)
qed

lemma record_with_results_quiet:
  "record_with_results env record_id verification_results w = (r, w') \<Longrightarrow> adds quiet w w'"
  by (auto simp: record_with_results_def adds_def perform_effect quiet_def split: sum.splits)

lemma process_record_no_verification:
  assumes "process_record env record_id verification_results wait_for_completion timeout w = Some (r, w')"
  shows "adds (\<lambda>ev. \<not> is_verification ev) w w'"
proof -
  let ?P = "\<lambda>ev. \<not> is_verification ev"
  obtain r1 w1 where p1: "perform env (CreateProcessingJob record_id) w = (r1, w1)"
    by (cases "perform env (CreateProcessingJob record_id) w")
  have a1: "adds ?P w w1" by (rule adds_perform'[OF p1]) simp
  have q: "\<And>w w'. adds quiet w w' \<Longrightarrow> adds ?P w w'"
    by (erule adds_mono) (simp add: quiet_def)
  from assms p1 have
    "(\<exists>x. record_with_results env record_id verification_results w1 = (x, w')) \<or>
     (\<exists>y w2. wait_for_record_completion env record_id timeout 10 (Some status_callback) w1 = Some (y, w2) \<and>
        (w' = w2 \<or> (\<exists>x. record_with_results env record_id verification_results w2 = (x, w'))))"
    by (auto simp: process_record_def split: sum.splits if_splits option.splits prod.splits)
  then show ?thesis
  proof (elim disjE exE conjE)
    fix x assume "record_with_results env record_id verification_results w1 = (x, w')"
    from q[OF record_with_results_quiet[OF this]] a1 show ?thesis by (blast intro: adds_trans)
  next
    fix y w2
    assume "wait_for_record_completion env record_id timeout 10 (Some status_callback) w1 = Some (y, w2)"
      and "w' = w2"
    with q[OF wait_for_record_completion_quiet] a1 show ?thesis by (blast intro: adds_trans)
  next
    fix y w2 x
    assume "wait_for_record_completion env record_id timeout 10 (Some status_callback) w1 = Some (y, w2)"
      and "record_with_results env record_id verification_results w2 = (x, w')"
    with q[OF wait_for_record_completion_quiet] q[OF record_with_results_quiet] a1
    show ?thesis by (blast intro: adds_trans)
  qed
qed

lemma verify_loop_trace:
  "verify_loop env record_id document_ids results passed w = ((results', passed'), w') \<Longrightarrow>
   \<exists>evs. trace w' = trace w @ evs \<and> list_all is_verification evs \<and>
         passed' = (passed \<and> list_all passed_verification evs)"
proof (induction document_ids arbitrary: results passed w)
  case Nil
  then show ?case by simp
next
  case (Cons entry document_ids)
  obtain t i where entry: "entry = (t, i)" by (cases entry)
  show ?case
  proof (cases "truthy i")
    case False
    with Cons.prems entry
    have "verify_loop env record_id document_ids results passed w = ((results', passed'), w')"
      by simp
    from Cons.IH[OF this] show ?thesis .
  next
    case True
    let ?k = "length (trace w)"
    let ?c = "VerifyDocumentType record_id i"
    let ?r = "respond env ?k ?c"
    let ?w1 = "\<lparr>clock = clock w + delay env ?k, trace = trace w @ [Called ?c ?r]\<rparr>"
    obtain verification where v:
      "verify_document_type env record_id i w = (Inr (verification_passes ?r, verification), ?w1)"
      using verify_document_type_effect[of env record_id i w] by blast
    from Cons.prems entry True v
    have "verify_loop env record_id document_ids (AList.update t verification results)
            (if \<not> verification_passes ?r then False else passed) ?w1 = ((results', passed'), w')"
      by simp
    from Cons.IH[OF this] obtain evs where evs:
      "trace w' = trace ?w1 @ evs" "list_all is_verification evs"
      "passed' = ((if \<not> verification_passes ?r then False else passed) \<and> list_all passed_verification evs)"
      by blast
    show ?thesis
      apply (rule exI[of _ "Called ?c ?r # evs"])
      using evs by auto
  qed
qed

lemma not_verification_passes: "\<not> is_verification ev \<Longrightarrow> passed_verification ev"
  by (induction ev rule: is_verification.induct) simp_all

lemma verification_not_job: "is_verification ev \<Longrightarrow> \<not> is_job_creation ev"
  by (induction ev rule: is_verification.induct) simp_all

text \<open>The runs of the body, by the phase in which they end.\<close>

lemma process_documents_body_cases:
  assumes run: "process_documents_body env documents config_name wait_for_completion timeout
      auto_process status_check_interval status_check_timeout w = Some (r, w')"
  shows "adds quiet w w' \<or>
    (\<exists>record_id document_ids w2 verification_results verification_passed w3 w4.
       adds quiet w w2 \<and>
       verify_all_documents env record_id document_ids w2 =
         ((verification_results, verification_passed), w3) \<and>
       adds quiet w3 w4 \<and>
       (w' = w4 \<or>
        auto_process \<and> verification_passed \<and>
        process_record env record_id verification_results wait_for_completion timeout w4 = Some (r, w')))"
proof (cases "validate_documents (file_exists env) documents")
  case (Inl e)
  with run have "w' = w" by (simp add: process_documents_body_def)
  then show ?thesis by (simp add: adds_refl)
next
  case validated: (Inr valid_documents)
  show ?thesis
  proof (cases "valid_documents = []")
    case True
    with run validated have "w' = w" by (simp add: process_documents_body_def)
    then show ?thesis by (simp add: adds_refl)
  next
    case valid: False
    obtain cr w1 where cu: "create_and_upload env valid_documents config_name w = (cr, w1)"
      by (cases "create_and_upload env valid_documents config_name w")
    have a1: "adds quiet w w1" using cu by (rule create_and_upload_quiet)
    show ?thesis
    proof (cases cr)
      case (Inl e)
      with run validated valid cu have "w' = w1" by (simp add: process_documents_body_def)
      with a1 show ?thesis by simp
    next
      case (Inr created)
      show ?thesis
      proof (cases created)
        case None
        with run validated valid cu Inr have "w' = w1" by (simp add: process_documents_body_def)
        with a1 show ?thesis by simp
      next
        case (Some pair)
        obtain record_id document_ids where pair: "pair = (record_id, document_ids)" by (cases pair)
        from run validated valid cu Inr Some pair obtain er w2 where
          emb: "wait_for_embedding env document_ids status_check_interval status_check_timeout w1 =
                  Some (er, w2)"
          by (auto simp: process_documents_body_def split: option.splits)
        have a2: "adds quiet w w2"
          using a1 wait_for_embedding_quiet[OF emb] by (rule adds_trans)
        show ?thesis
        proof (cases er)
          case (Inl e)
          with run validated valid cu Inr Some pair emb have "w' = w2"
            by (simp add: process_documents_body_def)
          with a2 show ?thesis by simp
        next
          case success: (Inr embedding_success)
          show ?thesis
          proof (cases embedding_success)
            case False
            with run validated valid cu Inr Some pair emb success
            have "perform env (GetRecordDetails record_id) w2 = (r, w')"
              by (simp add: process_documents_body_def)
            then have "adds quiet w2 w'" by (rule adds_perform') (simp add: quiet_def)
            with a2 show ?thesis by (blast intro: adds_trans)
          next
            case True
            obtain verification_results verification_passed w3 where
              ver: "verify_all_documents env record_id document_ids w2 =
                      ((verification_results, verification_passed), w3)"
              by (cases "verify_all_documents env record_id document_ids w2") auto
            obtain gr w4 where g: "perform env (GetRecordDetails record_id) w3 = (gr, w4)"
              by (cases "perform env (GetRecordDetails record_id) w3")
            have a4: "adds quiet w3 w4" using g by (rule adds_perform') (simp add: quiet_def)
            from run validated valid cu Inr Some pair emb success True ver g
            have "w' = w4 \<or>
                  auto_process \<and> verification_passed \<and>
                  process_record env record_id verification_results wait_for_completion timeout w4 =
                    Some (r, w')"
              by (auto simp: process_documents_body_def split: sum.splits if_splits)
            with a2 ver a4 show ?thesis by blast
          qed
        qed
      qed
    qed
  qed
qed

lemma process_documents_world:
  "process_documents env documents config_name wait_for_completion timeout auto_process
     status_check_interval status_check_timeout w = Some (r, w') \<Longrightarrow>
   \<exists>r'. process_documents_body env documents config_name wait_for_completion timeout auto_process
     status_check_interval status_check_timeout w = Some (r', w')"
  by (auto simp: process_documents_def split: option.splits sum.splits)

text \<open>
  Claim C1. In every run of \<open>process_documents\<close> that returns, if a create-processing-job
  call is among the effects of the run, then auto-processing was enabled by the caller and
  every document-type verification the run performed has passed; in every other run no
  processing job is created.
\<close>

theorem job_created_only_after_all_verifications_pass:
  "process_documents env documents config_name wait_for_completion timeout auto_process
     status_check_interval status_check_timeout w = Some (result, w') \<Longrightarrow>
   \<exists>evs. trace w' = trace w @ evs \<and>
         (list_ex is_job_creation evs \<longrightarrow> auto_process \<and> list_all passed_verification evs)"
proof -
  assume "process_documents env documents config_name wait_for_completion timeout auto_process
     status_check_interval status_check_timeout w = Some (result, w')"
  from process_documents_world[OF this] obtain r where
    body: "process_documents_body env documents config_name wait_for_completion timeout auto_process
     status_check_interval status_check_timeout w = Some (r, w')" ..
  have quiet_ok: "\<And>evs. list_all quiet evs \<Longrightarrow> \<not> list_ex is_job_creation evs"
    by (auto simp: list_all_iff list_ex_iff quiet_def)
  have quiet_pass: "\<And>evs. list_all quiet evs \<Longrightarrow> list_all passed_verification evs"
    by (auto simp: list_all_iff quiet_def intro: not_verification_passes)
  from process_documents_body_cases[OF body] show ?thesis
  proof
    assume "adds quiet w w'"
    then obtain evs where "trace w' = trace w @ evs" "list_all quiet evs"
      by (auto simp: adds_def)
    with quiet_ok show ?thesis by blast
  next
    assume "\<exists>record_id document_ids w2 verification_results verification_passed w3 w4.
       adds quiet w w2 \<and>
       verify_all_documents env record_id document_ids w2 =
         ((verification_results, verification_passed), w3) \<and>
       adds quiet w3 w4 \<and>
       (w' = w4 \<or>
        auto_process \<and> verification_passed \<and>
        process_record env record_id verification_results wait_for_completion timeout w4 = Some (r, w'))"
    then obtain record_id document_ids w2 verification_results verification_passed w3 w4
      where a2: "adds quiet w w2"
      and ver: "verify_all_documents env record_id document_ids w2 =
         ((verification_results, verification_passed), w3)"
      and a4: "adds quiet w3 w4"
      and fin: "w' = w4 \<or>
        auto_process \<and> verification_passed \<and>
        process_record env record_id verification_results wait_for_completion timeout w4 = Some (r, w')"
      by blast
    from a2 obtain e1 where e1: "trace w2 = trace w @ e1" "list_all quiet e1"
      by (auto simp: adds_def)
    from verify_loop_trace[OF ver[unfolded verify_all_documents_def]]
    obtain e2 where e2: "trace w3 = trace w2 @ e2" "list_all is_verification e2"
      "verification_passed = list_all passed_verification e2"
      by auto
    from a4 obtain e3 where e3: "trace w4 = trace w3 @ e3" "list_all quiet e3"
      by (auto simp: adds_def)
    from fin show ?thesis
    proof
      assume "w' = w4"
      then have "trace w' = trace w @ (e1 @ e2 @ e3)" using e1 e2 e3 by simp
      moreover have "\<not> list_ex is_job_creation (e1 @ e2 @ e3)"
        using quiet_ok[OF e1(2)] quiet_ok[OF e3(2)] e2(2)
        by (auto simp: list_all_iff list_ex_iff dest: verification_not_job)
      ultimately show ?thesis by blast
    next
      assume pr: "auto_process \<and> verification_passed \<and>
        process_record env record_id verification_results wait_for_completion timeout w4 = Some (r, w')"
      then have "process_record env record_id verification_results wait_for_completion timeout w4 =
          Some (r, w')" by simp
      then have "adds (\<lambda>ev. \<not> is_verification ev) w4 w'"
        by (rule process_record_no_verification)
      then obtain e4 where e4: "trace w' = trace w4 @ e4" "list_all (\<lambda>ev. \<not> is_verification ev) e4"
        by (auto simp: adds_def)
      have "list_all passed_verification e4"
        using e4(2) by (auto simp: list_all_iff intro: not_verification_passes)
      then have "list_all passed_verification (e1 @ e2 @ e3 @ e4)"
        using quiet_pass[OF e1(2)] quiet_pass[OF e3(2)] e2(3) pr by simp
      moreover have "trace w' = trace w @ (e1 @ e2 @ e3 @ e4)" using e1 e2 e3 e4 by simp
      ultimately show ?thesis using pr by blast
    qed
  qed
qed

section \<open>process_documents: exceptions, and the embedding timeout\<close>

lemma process_record_returns:
  assumes "steady env"
  shows "\<exists>y. process_record env record_id verification_results wait_for_completion timeout w = Some y"
proof -
  obtain r1 w1 where p1: "perform env (CreateProcessingJob record_id) w = (r1, w1)"
    by (cases "perform env (CreateProcessingJob record_id) w")
  have "(0::int) < 10" by simp
  from completion_loop_terminates[OF assms this, of record_id timeout "Some status_callback" "clock w1" w1]
  obtain y where "completion_loop env record_id timeout 10 (Some status_callback) (clock w1) w1 = Some y" ..
  then have "wait_for_record_completion env record_id timeout 10 (Some status_callback) w1 = Some y"
    by (simp add: wait_for_record_completion_def)
  with p1 show ?thesis
    by (cases y) (auto simp: process_record_def split: sum.splits)
qed

lemma wait_for_embedding_returns:
  assumes "steady env" and "check_interval \<noteq> 0"
  shows "\<exists>y. wait_for_embedding env document_ids check_interval timeout w = Some y"
  using embedding_loop_terminates[OF assms] by (simp add: wait_for_embedding_def)

lemma process_documents_body_returns:
  assumes "steady env" and "status_check_interval \<noteq> 0"
  shows "\<exists>y. process_documents_body env documents config_name wait_for_completion timeout auto_process
     status_check_interval status_check_timeout w = Some y"
proof (cases "validate_documents (file_exists env) documents")
  case (Inl e)
  then show ?thesis by (simp add: process_documents_body_def)
next
  case validated: (Inr valid_documents)
  obtain cr w1 where cu: "create_and_upload env valid_documents config_name w = (cr, w1)"
    by (cases "create_and_upload env valid_documents config_name w")
  have emb: "\<And>document_ids w. \<exists>er w2.
      wait_for_embedding env document_ids status_check_interval status_check_timeout w = Some (er, w2)"
    using wait_for_embedding_returns[OF assms] by fastforce
  have pr: "\<And>record_id vr w. \<exists>y.
      process_record env record_id vr wait_for_completion timeout w = Some y"
    using process_record_returns[OF assms(1)] by blast
  show ?thesis
  proof (cases cr)
    case (Inl e)
    with cu validated show ?thesis by (simp add: process_documents_body_def)
  next
    case (Inr created)
    show ?thesis
    proof (cases created)
      case None
      with cu Inr validated show ?thesis by (simp add: process_documents_body_def)
    next
      case (Some pair)
      obtain record_id document_ids where pair: "pair = (record_id, document_ids)" by (cases pair)
      obtain er w2 where e:
        "wait_for_embedding env document_ids status_check_interval status_check_timeout w1 = Some (er, w2)"
        using emb by blast
      obtain vr vp w3 where v: "verify_all_documents env record_id document_ids w2 = ((vr, vp), w3)"
        by (cases "verify_all_documents env record_id document_ids w2") auto
      obtain gr w4 where g: "perform env (GetRecordDetails record_id) w3 = (gr, w4)"
        by (cases "perform env (GetRecordDetails record_id) w3")
      obtain y where p: "process_record env record_id vr wait_for_completion timeout w4 = Some y"
        using pr by blast
      from cu Inr Some pair e v g p validated show ?thesis
        by (auto simp: process_documents_body_def split: sum.splits)
    qed
  qed
qed

text \<open>
  Claim C2. For every documents mapping, configuration name and option flags, and whatever
  the service, local storage and the clock do, \<open>process_documents\<close> never raises to its
  caller: a run that ends, ends by returning a value. An exception that leaves the body of
  the \<^verbatim>\<open>try\<close> is converted into the return value \<^verbatim>\<open>None\<close>, with no further effect, and a value
  the body returns is returned as it is. And the run does end, by returning, whenever the
  status check interval is not zero and no effect makes the clock run backwards.
\<close>

theorem process_documents_never_raises:
  "(\<forall>result w'.
      process_documents env documents config_name wait_for_completion timeout auto_process
        status_check_interval status_check_timeout w = Some (result, w') \<longrightarrow>
      (\<exists>returned. result = Inr returned)) \<and>
   (\<forall>e w'.
      process_documents_body env documents config_name wait_for_completion timeout auto_process
        status_check_interval status_check_timeout w = Some (Inl e, w') \<longrightarrow>
      process_documents env documents config_name wait_for_completion timeout auto_process
        status_check_interval status_check_timeout w = Some (Inr PNone, w')) \<and>
   (\<forall>returned w'.
      process_documents_body env documents config_name wait_for_completion timeout auto_process
        status_check_interval status_check_timeout w = Some (Inr returned, w') \<longrightarrow>
      process_documents env documents config_name wait_for_completion timeout auto_process
        status_check_interval status_check_timeout w = Some (Inr returned, w')) \<and>
   (steady env \<and> status_check_interval \<noteq> 0 \<longrightarrow>
      (\<exists>returned w'.
         process_documents env documents config_name wait_for_completion timeout auto_process
           status_check_interval status_check_timeout w = Some (Inr returned, w')))"
proof (intro conjI allI impI)
  fix result w'
  assume "process_documents env documents config_name wait_for_completion timeout auto_process
        status_check_interval status_check_timeout w = Some (result, w')"
  then show "\<exists>returned. result = Inr returned"
    by (auto simp: process_documents_def split: option.splits sum.splits)
next
  fix e w'
  assume "process_documents_body env documents config_name wait_for_completion timeout auto_process
        status_check_interval status_check_timeout w = Some (Inl e, w')"
  then show "process_documents env documents config_name wait_for_completion timeout auto_process
        status_check_interval status_check_timeout w = Some (Inr PNone, w')"
    by (simp add: process_documents_def)
next
  fix returned w'
  assume "process_documents_body env documents config_name wait_for_completion timeout auto_process
        status_check_interval status_check_timeout w = Some (Inr returned, w')"
  then show "process_documents env documents config_name wait_for_completion timeout auto_process
        status_check_interval status_check_timeout w = Some (Inr returned, w')"
    by (simp add: process_documents_def)
next
  assume "steady env \<and> status_check_interval \<noteq> 0"
  then obtain y where "process_documents_body env documents config_name wait_for_completion timeout
      auto_process status_check_interval status_check_timeout w = Some y"
    using process_documents_body_returns by blast
  then show "\<exists>returned w'.
         process_documents env documents config_name wait_for_completion timeout auto_process
           status_check_interval status_check_timeout w = Some (Inr returned, w')"
    by (cases y) (auto simp: process_documents_def split: sum.splits)
qed

text \<open>
  Claim C3. In every run in which the record was created with its documents and the wait
  for the embedding returns \<^verbatim>\<open>False\<close>, \<open>process_documents\<close> makes exactly one more call, the
  fetch of the record details, and returns its answer as it is (nothing is added to it;
  when the fetch itself raises, the top level returns \<^verbatim>\<open>None\<close>). The whole run makes no
  document-type verification call and creates no job.
\<close>

theorem embedding_timeout_returns_snapshot:
  assumes validated: "validate_documents (file_exists env) documents = Inr valid_documents"
    and created: "create_and_upload env valid_documents config_name w =
      (Inr (Some (record_id, document_ids)), w1)"
    and timed_out: "wait_for_embedding env document_ids status_check_interval status_check_timeout w1 =
      Some (Inr False, w2)"
  shows "\<exists>evs.
     process_documents env documents config_name wait_for_completion timeout auto_process
       status_check_interval status_check_timeout w =
       Some (case respond env (length (trace w2)) (GetRecordDetails record_id) of
               Inr snapshot \<Rightarrow> Inr snapshot
             | Inl e \<Rightarrow> Inr PNone,
             \<lparr>clock = clock w2 + delay env (length (trace w2)),
              trace = trace w2 @ [Called (GetRecordDetails record_id)
                                    (respond env (length (trace w2)) (GetRecordDetails record_id))]\<rparr>) \<and>
     trace w2 @ [Called (GetRecordDetails record_id)
                   (respond env (length (trace w2)) (GetRecordDetails record_id))] = trace w @ evs \<and>
     list_all quiet evs"
proof -
  have nonempty: "valid_documents \<noteq> []"
  proof
    assume "valid_documents = []"
    with created show False
      by (auto simp: create_and_upload_def split: sum.splits if_splits prod.splits)
  qed
  from create_and_upload_quiet[OF created] wait_for_embedding_quiet[OF timed_out]
  obtain e1 e2 where e: "trace w1 = trace w @ e1" "list_all quiet e1"
    "trace w2 = trace w1 @ e2" "list_all quiet e2"
    by (auto simp: adds_def)
  let ?ev = "Called (GetRecordDetails record_id) (respond env (length (trace w2)) (GetRecordDetails record_id))"
  have "trace w2 @ [?ev] = trace w @ (e1 @ e2 @ [?ev])" using e by simp
  moreover have "list_all quiet (e1 @ e2 @ [?ev])" using e by (simp add: quiet_def)
  moreover have "process_documents env documents config_name wait_for_completion timeout auto_process
       status_check_interval status_check_timeout w =
       Some (case respond env (length (trace w2)) (GetRecordDetails record_id) of
               Inr snapshot \<Rightarrow> Inr snapshot
             | Inl e \<Rightarrow> Inr PNone,
             \<lparr>clock = clock w2 + delay env (length (trace w2)), trace = trace w2 @ [?ev]\<rparr>)"
    using validated nonempty created timed_out
    by (simp add: process_documents_def process_documents_body_def perform_effect split: sum.splits)
  ultimately show ?thesis by blast
qed

lemma valid_contract:
  "validate_documents all_files [(''contract'', ''contract.pdf'')] = Inr [(''contract'', ''contract.pdf'')]"
  by code_simp

lemma full_run:
  "process_documents full_run_service [(''contract'', ''contract.pdf'')] ''dictamen'' True 300 True 5 180 start =
     Some (Inr (PDict [(''id'', PStr ''rec-1''), (''status'', PStr ''complete''),
                       (''verification_results'', PDict [(''contract'', verified_answer)])]),
           \<lparr>clock = 0, trace = full_run_trace\<rparr>)"
  by (simp add: process_documents_def process_documents_body_def full_run_service_def scripted_def
      valid_contract create_and_upload_def perform_def Let_def start_def uploaded_record_def
      wait_for_embedding_def embedding_loop.simps status_is_def verify_all_documents_def
      verify_document_type_def verified_answer_def display_verification_points_def
      record_status_is_def process_record_def wait_for_record_completion_def completion_loop.simps
      status_callback_def full_run_trace_def)

theorem job_created_only_after_all_verifications_pass_witness:
  "process_documents full_run_service [(''contract'', ''contract.pdf'')] ''dictamen'' True 300 True 5 180 start =
     Some (Inr (PDict [(''id'', PStr ''rec-1''), (''status'', PStr ''complete''),
                       (''verification_results'', PDict [(''contract'', verified_answer)])]),
           \<lparr>clock = 0, trace = full_run_trace\<rparr>) \<and>
   list_ex is_job_creation full_run_trace \<and> list_all passed_verification full_run_trace"
proof -
  from job_created_only_after_all_verifications_pass[OF full_run]
  obtain evs where evs: "trace \<lparr>clock = 0, trace = full_run_trace\<rparr> = trace start @ evs"
    "list_ex is_job_creation evs \<longrightarrow> True \<and> list_all passed_verification evs"
    by blast
  from evs(1) have eq: "evs = full_run_trace" by (simp add: start_def)
  have job: "list_ex is_job_creation full_run_trace" by (simp add: full_run_trace_def)
  with evs(2) eq have "list_all passed_verification full_run_trace" by simp
  with job full_run show ?thesis by simp
qed

lemma unreachable_body:
  "process_documents_body unreachable_service [(''contract'', ''contract.pdf'')] ''dictamen'' True 300 True 5 180 start =
     Some (Inl (Exn NebuiaError ''Network error''),
           \<lparr>clock = 0,
            trace = [Called (CreateRecord ''dictamen'') (Inl (Exn NebuiaError ''Network error''))]\<rparr>)"
  by (simp add: process_documents_body_def unreachable_service_def scripted_def
      valid_contract create_and_upload_def perform_def Let_def start_def)

theorem process_documents_never_raises_witness:
  "steady unreachable_service \<and> (5::int) \<noteq> 0 \<and>
   process_documents_body unreachable_service [(''contract'', ''contract.pdf'')] ''dictamen'' True 300 True 5 180 start =
     Some (Inl (Exn NebuiaError ''Network error''),
           \<lparr>clock = 0,
            trace = [Called (CreateRecord ''dictamen'') (Inl (Exn NebuiaError ''Network error''))]\<rparr>) \<and>
   process_documents unreachable_service [(''contract'', ''contract.pdf'')] ''dictamen'' True 300 True 5 180 start =
     Some (Inr PNone,
           \<lparr>clock = 0,
            trace = [Called (CreateRecord ''dictamen'') (Inl (Exn NebuiaError ''Network error''))]\<rparr>)"
proof -
  have st: "steady unreachable_service"
    unfolding unreachable_service_def by (rule steady_scripted) simp
  from process_documents_never_raises[of unreachable_service "[(''contract'', ''contract.pdf'')]"
      "''dictamen''" True 300 True 5 180 start] unreachable_body
  have "process_documents unreachable_service [(''contract'', ''contract.pdf'')] ''dictamen'' True 300 True 5 180 start =
     Some (Inr PNone,
           \<lparr>clock = 0,
            trace = [Called (CreateRecord ''dictamen'') (Inl (Exn NebuiaError ''Network error''))]\<rparr>)"
    by blast
  with st unreachable_body show ?thesis by simp
qed

lemma never_embedded_validated:
  "validate_documents (file_exists never_embedded_service) [(''contract'', ''contract.pdf'')] =
     Inr [(''contract'', ''contract.pdf'')]"
  by (simp add: never_embedded_service_def scripted_def valid_contract)

lemma never_embedded_created:
  "create_and_upload never_embedded_service [(''contract'', ''contract.pdf'')] ''dictamen'' start =
   (Inr (Some (PStr ''rec-1'', [(''contract'', PStr ''doc-1'')])),
    \<lparr>clock = 0,
     trace = [Called (CreateRecord ''dictamen'') (Inr (PDict [(''id'', PStr ''rec-1'')])),
              Called (UploadDocument (PStr ''rec-1'') ''contract.pdf'' ''contract'') (Inr (PDict [])),
              Called (GetRecordDetails (PStr ''rec-1'')) (Inr uploaded_record)]\<rparr>)"
  by (simp add: never_embedded_service_def scripted_def create_and_upload_def
      perform_def Let_def start_def uploaded_record_def)

lemma never_embedded_timed_out:
  "wait_for_embedding never_embedded_service [(''contract'', PStr ''doc-1'')] 5 5
     \<lparr>clock = 0,
      trace = [Called (CreateRecord ''dictamen'') (Inr (PDict [(''id'', PStr ''rec-1'')])),
               Called (UploadDocument (PStr ''rec-1'') ''contract.pdf'' ''contract'') (Inr (PDict [])),
               Called (GetRecordDetails (PStr ''rec-1'')) (Inr uploaded_record)]\<rparr> =
   Some (Inr False,
     \<lparr>clock = 5,
      trace = [Called (CreateRecord ''dictamen'') (Inr (PDict [(''id'', PStr ''rec-1'')])),
               Called (UploadDocument (PStr ''rec-1'') ''contract.pdf'' ''contract'') (Inr (PDict [])),
               Called (GetRecordDetails (PStr ''rec-1'')) (Inr uploaded_record),
               Called (GetDocumentStatus (PStr ''doc-1'')) (status_is ''pending''),
               Slept 5]\<rparr>)"
  by (simp add: never_embedded_service_def scripted_def perform_def sleep_def sleep_exn_def Let_def
      wait_for_embedding_def embedding_loop.simps status_is_def)

theorem embedding_timeout_returns_snapshot_witness:
  "process_documents never_embedded_service [(''contract'', ''contract.pdf'')] ''dictamen'' True 300 True 5 5 start =
     Some (Inr uploaded_record,
       \<lparr>clock = 5,
        trace = [Called (CreateRecord ''dictamen'') (Inr (PDict [(''id'', PStr ''rec-1'')])),
                 Called (UploadDocument (PStr ''rec-1'') ''contract.pdf'' ''contract'') (Inr (PDict [])),
                 Called (GetRecordDetails (PStr ''rec-1'')) (Inr uploaded_record),
                 Called (GetDocumentStatus (PStr ''doc-1'')) (status_is ''pending''),
                 Slept 5,
                 Called (GetRecordDetails (PStr ''rec-1'')) (Inr uploaded_record)]\<rparr>) \<and>
   list_all quiet
     [Called (CreateRecord ''dictamen'') (Inr (PDict [(''id'', PStr ''rec-1'')])),
      Called (UploadDocument (PStr ''rec-1'') ''contract.pdf'' ''contract'') (Inr (PDict [])),
      Called (GetRecordDetails (PStr ''rec-1'')) (Inr uploaded_record),
      Called (GetDocumentStatus (PStr ''doc-1'')) (status_is ''pending''),
      Slept 5,
      Called (GetRecordDetails (PStr ''rec-1'')) (Inr uploaded_record)]"
proof -
  have answer: "respond never_embedded_service (Suc (Suc (Suc (Suc (Suc 0)))))
      (GetRecordDetails (PStr ''rec-1'')) = Inr uploaded_record"
    by (simp add: never_embedded_service_def scripted_def)
  have d: "delay never_embedded_service k = 0" for k
    by (simp add: never_embedded_service_def scripted_def)
  from embedding_timeout_returns_snapshot[OF never_embedded_validated never_embedded_created
      never_embedded_timed_out, of True 300 True]
  obtain evs where r:
    "process_documents never_embedded_service [(''contract'', ''contract.pdf'')] ''dictamen'' True 300 True 5 5 start =
     Some (Inr uploaded_record,
       \<lparr>clock = 5,
        trace = [Called (CreateRecord ''dictamen'') (Inr (PDict [(''id'', PStr ''rec-1'')])),
                 Called (UploadDocument (PStr ''rec-1'') ''contract.pdf'' ''contract'') (Inr (PDict [])),
                 Called (GetRecordDetails (PStr ''rec-1'')) (Inr uploaded_record),
                 Called (GetDocumentStatus (PStr ''doc-1'')) (status_is ''pending''),
                 Slept 5,
                 Called (GetRecordDetails (PStr ''rec-1'')) (Inr uploaded_record)]\<rparr>)"
    "[Called (CreateRecord ''dictamen'') (Inr (PDict [(''id'', PStr ''rec-1'')])),
                 Called (UploadDocument (PStr ''rec-1'') ''contract.pdf'' ''contract'') (Inr (PDict [])),
                 Called (GetRecordDetails (PStr ''rec-1'')) (Inr uploaded_record),
                 Called (GetDocumentStatus (PStr ''doc-1'')) (status_is ''pending''),
                 Slept 5,
                 Called (GetRecordDetails (PStr ''rec-1'')) (Inr uploaded_record)] = trace start @ evs"
    "list_all quiet evs"
    by (auto simp: answer d)
  from r(2) have "evs = [Called (CreateRecord ''dictamen'') (Inr (PDict [(''id'', PStr ''rec-1'')])),
                 Called (UploadDocument (PStr ''rec-1'') ''contract.pdf'' ''contract'') (Inr (PDict [])),
                 Called (GetRecordDetails (PStr ''rec-1'')) (Inr uploaded_record),
                 Called (GetDocumentStatus (PStr ''doc-1'')) (status_is ''pending''),
                 Slept 5,
                 Called (GetRecordDetails (PStr ''rec-1'')) (Inr uploaded_record)]"
    by (simp add: start_def)
  with r(1,3) show ?thesis by simp
qed

subsection \<open>\<open>extract_document_entities\<close> changes no object of its caller\<close>

lemma fresh_info_alloc: "fresh_info h0 h \<Longrightarrow> fresh_info h0 (h @ [obj])"
  by (auto simp: fresh_info_def nth_append prefix_def)

lemma prefix_update: "prefix h0 h \<Longrightarrow> length h0 \<le> a \<Longrightarrow> prefix h0 (h[a := obj])"
  by (auto simp: prefix_def list_update_append)

lemma fresh_info_update:
  "fresh_info h0 h \<Longrightarrow> length h0 < a \<Longrightarrow> fresh_info h0 (h[a := obj])"
  by (auto simp: fresh_info_def prefix_update)

lemma hkey_update_values:
  "list_all P kvs \<Longrightarrow> P (k, x) \<Longrightarrow> (\<And>k' v. P (k', v) \<Longrightarrow> P (k', x)) \<Longrightarrow>
   list_all P (hkey_update k x kvs)"
  by (induction kvs) auto

lemma fresh_info_setitem:
  assumes "fresh_info h0 h" and "h_setitem h (HRef (length h0)) k (HRef l) = (h', r)" and "length h0 < l"
  shows "fresh_info h0 h'"
proof -
  from assms(1) obtain kvs where kvs: "h ! length h0 = HDict kvs"
    "list_all (\<lambda>kv. \<exists>l. snd kv = HRef l \<and> length h0 < l) kvs"
    and len: "length h0 < length h" and pre: "prefix h0 h"
    by (auto simp: fresh_info_def)
  have vals: "list_all (\<lambda>kv. \<exists>l. snd kv = HRef l \<and> length h0 < l) (hkey_update k (HRef l) kvs)"
    using kvs(2) assms(3) by (intro hkey_update_values) auto
  from assms(2) kvs(1) len
  have "h' = h \<or> h' = h[length h0 := HDict (hkey_update k (HRef l) kvs)]"
    by (auto split: if_splits)
  then show ?thesis
  proof
    assume "h' = h"
    with assms(1) show ?thesis by simp
  next
    assume "h' = h[length h0 := HDict (hkey_update k (HRef l) kvs)]"
    with pre len vals show ?thesis
      by (auto simp: fresh_info_def prefix_update)
  qed
qed

lemma h_copy_effect:
  "h_copy h v = (h', r) \<Longrightarrow>
   (h' = h \<and> (\<exists>e. r = Inl e)) \<or> (\<exists>obj. h' = h @ [obj] \<and> r = Inr (HRef (length h)))"
  by (auto simp: h_copy_def split: view.splits)

lemma h_delitem_effect:
  "h_delitem h (HRef a) k = (h', r) \<Longrightarrow> h' = h \<or> (\<exists>obj. h' = h[a := obj])"
  by (auto split: view.splits if_splits)

lemma h_append_effect:
  "h_append h (HRef a) x = (h', r) \<Longrightarrow> h' = h \<or> (\<exists>obj. h' = h[a := obj])"
  by (auto split: view.splits)

lemma h_append_other:
  "(\<And>a. v \<noteq> HRef a) \<Longrightarrow> h_append h v x = (h', r) \<Longrightarrow> h' = h"
  by (cases v) auto

lemma h_clean_entity_effect:
  assumes "h_clean_entity h entity = (h', r)"
  shows "h' = h \<or> (\<exists>obj. h' = h @ [obj])"
  using assms
  by (auto simp: h_clean_entity_def h_copy_def split: sum.splits if_splits view.splits prod.splits)

lemma h_clean_entity_fresh:
  assumes "fresh_info h0 h" and "h_clean_entity h entity = (h', r)"
  shows "fresh_info h0 h'"
  using h_clean_entity_effect[OF assms(2)] assms(1) by (auto simp: fresh_info_alloc)

lemma hkey_lookup_value:
  "hkey_lookup kvs k = Some x \<Longrightarrow> list_all P kvs \<Longrightarrow> \<exists>k'. P (k', x)"
  by (induction kvs) (auto split: if_splits)

lemma h_item_fresh:
  assumes "fresh_info h0 h" and "h_item h (HRef (length h0)) k = Inr x"
  shows "\<exists>l. x = HRef l \<and> length h0 < l"
proof -
  from assms(1) obtain kvs where kvs: "h ! length h0 = HDict kvs"
    "list_all (\<lambda>kv. \<exists>l. snd kv = HRef l \<and> length h0 < l) kvs"
    and len: "length h0 < length h"
    by (auto simp: fresh_info_def)
  from assms(2) kvs(1) len have "hkey_lookup kvs k = Some x"
    by (auto simp: h_item_def split: if_splits option.splits)
  from hkey_lookup_value[OF this kvs(2)] show ?thesis by auto
qed

lemma h_entities_loop_fresh:
  "fresh_info h0 h \<Longrightarrow> h_entities_loop h es (HRef (length h0)) doc_type = (h', r) \<Longrightarrow>
   fresh_info h0 h'"
proof (induction es arbitrary: h)
  case Nil
  then show ?case by simp
next
  case (Cons entity es)
  obtain h1 r1 where c: "h_clean_entity h entity = (h1, r1)"
    by (cases "h_clean_entity h entity")
  have f1: "fresh_info h0 h1" using Cons.prems(1) c by (rule h_clean_entity_fresh)
  show ?case
  proof (cases r1)
    case (Inl e)
    with Cons.prems(2) c have "h' = h1" by simp
    with f1 show ?thesis by simp
  next
    case (Inr cleaned)
    show ?thesis
    proof (cases cleaned)
      case None
      with Cons.prems(2) c Inr have "h_entities_loop h1 es (HRef (length h0)) doc_type = (h', r)"
        by simp
      from Cons.IH[OF f1 this] show ?thesis .
    next
      case (Some copied)
      show ?thesis
      proof (cases "h_item h1 (HRef (length h0)) doc_type")
        case (Inl e)
        with Cons.prems(2) c \<open>r1 = Inr cleaned\<close> Some have "h' = h1" by simp
        with f1 show ?thesis by simp
      next
        case item: (Inr target)
        from h_item_fresh[OF f1 item] obtain l where l: "target = HRef l" "length h0 < l" by blast
        obtain h2 r2 where app: "h_append h1 (HRef l) copied = (h2, r2)"
          by (cases "h_append h1 (HRef l) copied")
        from h_append_effect[OF app] f1 l(2) have f2: "fresh_info h0 h2"
          by (auto simp: fresh_info_update)
        show ?thesis
        proof (cases r2)
          case (Inl e)
          with Cons.prems(2) c \<open>r1 = Inr cleaned\<close> Some item l(1) app have "h' = h2"
            by (simp del: h_append.simps)
          with f2 show ?thesis by simp
        next
          case (Inr u)
          with Cons.prems(2) c \<open>r1 = Inr cleaned\<close> Some item l(1) app
          have "h_entities_loop h2 es (HRef (length h0)) doc_type = (h', r)"
            by (simp del: h_append.simps)
          from Cons.IH[OF f2 this] show ?thesis .
        qed
      qed
    qed
  qed
qed

lemma h_documents_loop_fresh:
  "fresh_info h0 h \<Longrightarrow> h_documents_loop h ds (HRef (length h0)) = (h', r) \<Longrightarrow> fresh_info h0 h'"
proof (induction ds arbitrary: h)
  case Nil
  then show ?case by simp
next
  case (Cons document ds)
  let ?info = "HRef (length h0)"
  let ?h1 = "h @ [HList []]"
  let ?h2 = "h @ [HList [], HList []]"
  have f1: "fresh_info h0 ?h1" using Cons.prems(1) by (rule fresh_info_alloc)
  have f2: "fresh_info h0 ?h2" using fresh_info_alloc[OF f1, of "HList []"] by simp
  have len: "length h0 < Suc (length h)" using f1 by (simp add: fresh_info_def)
  note run = Cons.prems(2)[unfolded h_documents_loop.simps h_alloc_def]
  show ?case
  proof (cases "h_get h document ''document_type'' (HStr ''unknown'')")
    case (Inl e)
    with run have "h' = h" by simp
    with Cons.prems(1) show ?thesis by simp
  next
    case dt: (Inr doc_type)
    show ?thesis
    proof (cases "h_get ?h1 document ''entities'' (HRef (length h))")
      case (Inl e)
      with run dt have "h' = ?h1" by simp
      with f1 show ?thesis by simp
    next
      case en: (Inr entities)
      show ?thesis
      proof (cases "h_has_key ?h1 ?info doc_type")
        case (Inl e)
        with run dt en have "h' = ?h1" by simp
        with f1 show ?thesis by simp
      next
        case pr: (Inr present)
        define init where "init =
          (if \<not> present then h_setitem ?h2 ?info doc_type (HRef (Suc (length h))) else (?h1, Inr ()))"
        obtain h3 r3 where i: "init = (h3, r3)" by (cases init)
        have f3: "fresh_info h0 h3"
        proof (cases present)
          case True
          with i f1 show ?thesis by (simp add: init_def)
        next
          case False
          with i have "h_setitem ?h2 ?info doc_type (HRef (Suc (length h))) = (h3, r3)"
            by (simp add: init_def)
          from fresh_info_setitem[OF f2 this len] show ?thesis .
        qed
        from run dt en pr i have run3:
          "(case r3 of Inl e \<Rightarrow> (h3, Inl e)
            | Inr u \<Rightarrow>
                (case h_iter h3 entities of
                   Inl e \<Rightarrow> (h3, Inl e)
                 | Inr es \<Rightarrow>
                     (case h_entities_loop h3 es ?info doc_type of
                        (h4, Inl e) \<Rightarrow> (h4, Inl e)
                      | (h4, Inr u') \<Rightarrow> h_documents_loop h4 ds ?info))) = (h', r)"
          by (cases r3) (simp_all add: init_def del: h_setitem.simps split: if_splits)
        show ?thesis
        proof (cases r3)
          case (Inl e)
          with run3 have "h' = h3" by simp
          with f3 show ?thesis by simp
        next
          case u: (Inr u)
          show ?thesis
          proof (cases "h_iter h3 entities")
            case (Inl e)
            with run3 u have "h' = h3" by simp
            with f3 show ?thesis by simp
          next
            case it: (Inr es)
            obtain h4 r4 where e: "h_entities_loop h3 es ?info doc_type = (h4, r4)"
              by (cases "h_entities_loop h3 es ?info doc_type")
            have f4: "fresh_info h0 h4" using f3 e by (rule h_entities_loop_fresh)
            show ?thesis
            proof (cases r4)
              case (Inl e')
              with run3 u it e have "h' = h4" by simp
              with f4 show ?thesis by simp
            next
              case (Inr u')
              with run3 u it e have "h_documents_loop h4 ds ?info = (h', r)" by simp
              from Cons.IH[OF f4 this] show ?thesis .
            qed
          qed
        qed
      qed
    qed
  qed
qed

text \<open>
  Claim C10. For every store and every argument, \<open>extract_document_entities\<close> leaves each
  object that existed before the call as it was, whether it returns or raises: the store
  after the call is the store before it followed by new objects, so the record, its
  documents, their entities and the entities' structures (with \<open>name_to_show\<close> and every
  other field) look the same after the call. The field is deleted from the copy only.
\<close>

theorem extract_document_entities_leaves_argument_unchanged:
  "extract_document_entities_heap h record_result = (h', result) \<Longrightarrow>
   take (length h) h' = h \<and> (\<forall>a < length h. h_view h' (HRef a) = h_view h (HRef a))"
proof -
  assume run: "extract_document_entities_heap h record_result = (h', result)"
  let ?h1 = "h @ [HDict []]"
  have f1: "fresh_info h ?h1" by (simp add: fresh_info_def)
  from run have "h' = ?h1 \<or> (\<exists>ds u. h_documents_loop ?h1 ds (HRef (length h)) = (h', u))"
    by (auto simp: extract_document_entities_heap_def h_alloc_def split: sum.splits prod.splits if_splits)
  then have "fresh_info h h'"
    using f1 by (auto intro: h_documents_loop_fresh)
  then obtain zs where h': "h' = h @ zs" by (auto simp: fresh_info_def prefix_def)
  then show ?thesis by (auto simp: nth_append)
qed

lemma example_store_run:
  "extract_document_entities_heap example_store (HRef 5) =
     (example_store @ example_extracted, Inr (HRef 6))"
  by (simp add: extract_document_entities_heap_def example_store_def example_extracted_def
      h_alloc_def h_truthy_def h_contains_def h_getitem_def h_iter_def h_get_def h_has_key_def
      h_hashable_def h_clean_entity_def h_copy_def h_item_def nth_append)

theorem extract_document_entities_leaves_argument_unchanged_witness:
  "extract_document_entities_heap example_store (HRef 5) =
     (example_store @ example_extracted, Inr (HRef 6)) \<and>
   take (length example_store) (example_store @ example_extracted) = example_store \<and>
   h_view (example_store @ example_extracted) (HRef 0) =
     VDict [(HStr ''name_to_show'', HStr ''Total''), (HStr ''value'', HInt 100)] \<and>
   h_view (example_store @ example_extracted) (HRef 9) = VDict [(HStr ''value'', HInt 100)]"
  using extract_document_entities_leaves_argument_unchanged[OF example_store_run] example_store_run
  by (simp add: example_store_def example_extracted_def)

text \<open>
  The copy matters: deleting the field from the structure itself changes the store the
  caller holds.
\<close>

lemma delete_without_copy_changes_argument:
  "fst (h_delitem example_store (HRef 0) ''name_to_show'') \<noteq> example_store"
  by (simp add: example_store_def)

end
